theory Spec2Isabelle
  imports Complex_Main "HOL-Library.Multiset"
begin

section \<open>JavaScript numbers\<close>

text \<open>
  A JavaScript \<^verbatim>\<open>number\<close> is an IEEE double. Two things of it matter to the code below
  and are written out:
  \<^item> the special values. A quantity that the code obtains from finite readings by
    \<open>+\<close>, \<open>-\<close>, \<open>*\<close> only (a clock reading, a memory reading, a sample, a sum of
    samples) is a \<^typ>\<open>real\<close>; a quantity that comes out of a division whose divisor may
    be zero, or that the caller passes in as an option, is a \<open>jsnum\<close>, which adds
    \<open>Infinity\<close>, \<open>-Infinity\<close> and \<open>NaN\<close>;
  \<^item> rounding. Every arithmetic operation of the source is followed by the rounding
    \<open>rnd\<close> of the result to a double; \<open>rnd\<close> is a parameter of every function,
    \<open>exact\<close> is arithmetic without rounding and \<open>fl64\<close> is rounding to the nearest
    double, ties to even. Operations on array lengths and loop counters (integers below
    \<open>2^53\<close>) and multiplication of such an integer by \<open>0.5\<close> are exact in IEEE
    arithmetic and carry no \<open>rnd\<close>.
  Overflow to infinity, subnormal numbers and the sign of zero are not modelled.
\<close>

type_synonym rounding = "real \<Rightarrow> real"

definition exact :: rounding where
  "exact x = x"

definition round_half_even :: "real \<Rightarrow> int" where
  "round_half_even x =
     (let f = \<lfloor>x\<rfloor>; d = x - of_int f
      in if d < 1 / 2 then f else if 1 / 2 < d then f + 1 else if even f then f else f + 1)"

definition fl64 :: rounding where
  "fl64 x =
     (if x = 0 then 0
      else let e = \<lfloor>log 2 \<bar>x\<bar>\<rfloor> - 52
           in of_int (round_half_even (x / 2 powi e)) * 2 powi e)"

datatype jsnum = Fin real | PInf | NInf | NaN

fun js_neg :: "jsnum \<Rightarrow> jsnum" where
  "js_neg (Fin a) = Fin (- a)"
| "js_neg PInf = NInf"
| "js_neg NInf = PInf"
| "js_neg NaN = NaN"

fun js_add :: "rounding \<Rightarrow> jsnum \<Rightarrow> jsnum \<Rightarrow> jsnum" where
  "js_add rnd NaN b = NaN"
| "js_add rnd a NaN = NaN"
| "js_add rnd (Fin a) (Fin b) = Fin (rnd (a + b))"
| "js_add rnd PInf NInf = NaN"
| "js_add rnd NInf PInf = NaN"
| "js_add rnd PInf b = PInf"
| "js_add rnd NInf b = NInf"
| "js_add rnd (Fin a) b = b"

definition js_sub :: "rounding \<Rightarrow> jsnum \<Rightarrow> jsnum \<Rightarrow> jsnum" where
  "js_sub rnd a b = js_add rnd a (js_neg b)"

text \<open>The sign of a number that is not \<open>NaN\<close>: \<open>-1\<close>, \<open>0\<close> or \<open>1\<close>.\<close>

fun js_sign :: "jsnum \<Rightarrow> int" where
  "js_sign (Fin a) = (if a < 0 then - 1 else if a = 0 then 0 else 1)"
| "js_sign PInf = 1"
| "js_sign NInf = - 1"
| "js_sign NaN = 0"

definition js_inf :: "int \<Rightarrow> jsnum" where
  "js_inf s = (if s = 0 then NaN else if 0 < s then PInf else NInf)"

fun js_mul :: "rounding \<Rightarrow> jsnum \<Rightarrow> jsnum \<Rightarrow> jsnum" where
  "js_mul rnd NaN b = NaN"
| "js_mul rnd a NaN = NaN"
| "js_mul rnd (Fin a) (Fin b) = Fin (rnd (a * b))"
| "js_mul rnd a b = js_inf (js_sign a * js_sign b)"

text \<open>
  Division: a finite number by zero is an infinity of its sign (\<open>NaN\<close> for \<open>0 / 0\<close>),
  an infinity by an infinity is \<open>NaN\<close>, a finite number by an infinity is zero.
\<close>

fun js_div :: "rounding \<Rightarrow> jsnum \<Rightarrow> jsnum \<Rightarrow> jsnum" where
  "js_div rnd NaN b = NaN"
| "js_div rnd a NaN = NaN"
| "js_div rnd (Fin a) (Fin b) = (if b = 0 then js_inf (js_sign (Fin a)) else Fin (rnd (a / b)))"
| "js_div rnd (Fin a) b = Fin 0"
| "js_div rnd a (Fin b) = js_inf (js_sign a * (if b < 0 then - 1 else 1))"
| "js_div rnd a b = NaN"

text \<open>Comparisons: every comparison with \<open>NaN\<close> is false.\<close>

fun js_lt :: "jsnum \<Rightarrow> jsnum \<Rightarrow> bool" where
  "js_lt NaN b = False"
| "js_lt a NaN = False"
| "js_lt (Fin a) (Fin b) = (a < b)"
| "js_lt a PInf = (a \<noteq> PInf)"
| "js_lt NInf b = (b \<noteq> NInf)"
| "js_lt a b = False"

definition js_gt :: "jsnum \<Rightarrow> jsnum \<Rightarrow> bool" where
  "js_gt a b = js_lt b a"

definition js_le :: "jsnum \<Rightarrow> jsnum \<Rightarrow> bool" where
  "js_le a b = (a \<noteq> NaN \<and> b \<noteq> NaN \<and> \<not> js_lt b a)"

definition js_ge :: "jsnum \<Rightarrow> jsnum \<Rightarrow> bool" where
  "js_ge a b = js_le b a"

fun js_floor :: "jsnum \<Rightarrow> jsnum" where
  "js_floor (Fin a) = Fin (of_int \<lfloor>a\<rfloor>)"
| "js_floor a = a"

fun js_abs :: "jsnum \<Rightarrow> jsnum" where
  "js_abs (Fin a) = Fin \<bar>a\<bar>"
| "js_abs NaN = NaN"
| "js_abs a = PInf"

text \<open>\<^verbatim>\<open>Math.min\<close> and \<^verbatim>\<open>Math.max\<close> of two numbers: \<open>NaN\<close> if either is.\<close>

definition js_min :: "jsnum \<Rightarrow> jsnum \<Rightarrow> jsnum" where
  "js_min a b = (if a = NaN \<or> b = NaN then NaN else if js_lt b a then b else a)"

definition js_max :: "jsnum \<Rightarrow> jsnum \<Rightarrow> jsnum" where
  "js_max a b = (if a = NaN \<or> b = NaN then NaN else if js_lt a b then b else a)"

text \<open>
  \<^verbatim>\<open>x || d\<close> on an optional number: \<open>d\<close> when \<open>x\<close> is \<^verbatim>\<open>undefined\<close>, \<open>0\<close> or
  \<open>NaN\<close>, else \<open>x\<close>.
\<close>

fun js_or :: "jsnum option \<Rightarrow> jsnum \<Rightarrow> jsnum" where
  "js_or None d = d"
| "js_or (Some (Fin a)) d = (if a = 0 then d else Fin a)"
| "js_or (Some NaN) d = d"
| "js_or (Some a) d = a"

text \<open>
  The number of times the body of \<^verbatim>\<open>for (let i = 0; i < n; i++)\<close> runs; with
  \<open>n = Infinity\<close> the loop does not end.
\<close>

fun loop_count :: "jsnum \<Rightarrow> nat option" where
  "loop_count (Fin a) = Some (nat \<lceil>a\<rceil>)"
| "loop_count PInf = None"
| "loop_count a = Some 0"

section \<open>Statistics (stats-utils.ts and the core's calculateStats)\<close>

datatype error =
  EmptyStatsError  \<comment> \<open>\<^verbatim>\<open>Error('Cannot calculate stats for empty array')\<close>\<close>
| NoResultsError  \<comment> \<open>\<^verbatim>\<open>Error('No results to combine')\<close>\<close>
| InvalidNameError  \<comment> \<open>\<^verbatim>\<open>Error('Invalid benchmark name. ...')\<close>\<close>
| ContextError string  \<comment> \<open>\<^verbatim>\<open>new Error(message.error)\<close>, or the error of an \<^verbatim>\<open>'error'\<close> event\<close>
| ExitCodeError int  \<comment> \<open>\<^verbatim>\<open>Error(`Process exited with code ${code}`)\<close>, and the worker's\<close>
| TypeError string  \<comment> \<open>a \<^verbatim>\<open>TypeError\<close> of the language, as \<^verbatim>\<open>+\<close> throws on a BigInt operand\<close>

record StatsResult =
  mean :: real
  median :: real
  min_value :: real
  max_value :: real
  standardDeviation :: real

text \<open>\<^verbatim>\<open>Math.min(...values)\<close> and \<^verbatim>\<open>Math.max(...values)\<close> of a non-empty array.\<close>

definition math_min :: "real list \<Rightarrow> real" where
  "math_min values = foldl min (hd values) (tl values)"

definition math_max :: "real list \<Rightarrow> real" where
  "math_max values = foldl max (hd values) (tl values)"

text \<open>\<^verbatim>\<open>values.reduce((sum, val) => sum + val, 0)\<close>.\<close>

definition reduce_sum :: "rounding \<Rightarrow> real list \<Rightarrow> real" where
  "reduce_sum rnd values = foldl (\<lambda>sum val. rnd (sum + val)) 0 values"

text \<open>\<^verbatim>\<open>values.reduce((sum, val) => sum + Math.pow(val - mean, 2), 0)\<close>.\<close>

definition reduce_squares :: "rounding \<Rightarrow> real \<Rightarrow> real list \<Rightarrow> real" where
  "reduce_squares rnd m values =
     foldl (\<lambda>sum val. rnd (sum + rnd ((rnd (val - m)) ^ 2))) 0 values"

definition calculateStats :: "rounding \<Rightarrow> real list \<Rightarrow> error + StatsResult" where
  "calculateStats rnd values =
     (if length values = 0 then Inl EmptyStatsError
      else
        let sorted = sort values;
            mean = rnd (reduce_sum rnd values / real (length values));
            min = math_min values;
            max = math_max values;
            median = sorted ! (length sorted div 2);
            variance = rnd (reduce_squares rnd mean values / real (length values));
            stdDev = rnd (sqrt variance)
        in Inr \<lparr>mean = mean, median = median, min_value = min, max_value = max,
                standardDeviation = stdDev\<rparr>)"

record Outliers =
  mild :: "real list"
  extreme :: "real list"

record DetectResult =
  cleanValues :: "real list"
  outliers :: Outliers

text \<open>
  The median that \<^verbatim>\<open>detectOutliers\<close> takes of its input, the absolute deviations from
  it and their median (MAD). On the empty array the two medians are \<^verbatim>\<open>undefined\<close> in
  the source and are never used.
\<close>

definition detect_median :: "real list \<Rightarrow> real" where
  "detect_median values = (let sorted = sort values in sorted ! (length sorted div 2))"

definition absoluteDeviations :: "rounding \<Rightarrow> real list \<Rightarrow> real list" where
  "absoluteDeviations rnd values = map (\<lambda>val. \<bar>rnd (val - detect_median values)\<bar>) values"

definition detect_mad :: "rounding \<Rightarrow> real list \<Rightarrow> real" where
  "detect_mad rnd values =
     sort (absoluteDeviations rnd values) ! (length (absoluteDeviations rnd values) div 2)"

definition modifiedZScore :: "rounding \<Rightarrow> real \<Rightarrow> real \<Rightarrow> real \<Rightarrow> real" where
  "modifiedZScore rnd median' mad value =
     (if mad = 0 then 0 else \<bar>rnd (rnd (rnd 0.6745 * rnd (value - median')) / mad)\<bar>)"

text \<open>The \<^verbatim>\<open>forEach\<close> that pushes each value onto one of the three arrays, in order.\<close>

fun classify :: "(real \<Rightarrow> real) \<Rightarrow> real list \<Rightarrow> DetectResult" where
  "classify z [] = \<lparr>cleanValues = [], outliers = \<lparr>mild = [], extreme = []\<rparr>\<rparr>"
| "classify z (value # rest) =
     (let r = classify z rest
      in if 5.0 < z value then
           r\<lparr>outliers := (outliers r)\<lparr>extreme := value # extreme (outliers r)\<rparr>\<rparr>
         else if 3.5 < z value then
           r\<lparr>outliers := (outliers r)\<lparr>mild := value # mild (outliers r)\<rparr>\<rparr>
         else r\<lparr>cleanValues := value # cleanValues r\<rparr>)"

text \<open>
  Lines 93 to 107 of \<^verbatim>\<open>detectOutliers\<close>: "If we've removed too many values, revert
  to original set".
\<close>

definition revertIfTooManyRemoved :: "real list \<Rightarrow> DetectResult \<Rightarrow> DetectResult" where
  "revertIfTooManyRemoved values r =
     (if real (length (cleanValues r)) < real (length values) * 0.5
      then \<lparr>cleanValues = values, outliers = \<lparr>mild = [], extreme = []\<rparr>\<rparr>
      else r)"

definition detectOutliers :: "rounding \<Rightarrow> real list \<Rightarrow> DetectResult" where
  "detectOutliers rnd values =
     revertIfTooManyRemoved values
       (classify (modifiedZScore rnd (detect_median values) (detect_mad rnd values)) values)"

record ConfidenceInterval =
  lower :: jsnum
  upper :: jsnum

definition calculateConfidenceInterval ::
    "rounding \<Rightarrow> real list \<Rightarrow> real \<Rightarrow> real \<Rightarrow> ConfidenceInterval" where
  "calculateConfidenceInterval rnd values mean' stdDev =
     (let marginOfError =
            js_mul rnd (Fin (rnd 1.96))
              (js_div rnd (Fin stdDev) (Fin (rnd (sqrt (real (length values))))))
      in \<lparr>lower = js_sub rnd (Fin mean') marginOfError,
          upper = js_add rnd (Fin mean') marginOfError\<rparr>)"

definition calculateSkewness :: "rounding \<Rightarrow> real list \<Rightarrow> real \<Rightarrow> real \<Rightarrow> real" where
  "calculateSkewness rnd values mean' stdDev =
     (if length values < 3 \<or> stdDev = 0 then 0
      else
        let cubedDeviations = map (\<lambda>val. rnd ((rnd (rnd (val - mean') / stdDev)) ^ 3)) values;
            sumCubedDeviations = reduce_sum rnd cubedDeviations;
            n = real (length values);
            biasAdjustment = rnd (n / ((n - 1) * (n - 2)))
        in rnd (biasAdjustment * sumCubedDeviations))"

definition calculateKurtosis :: "rounding \<Rightarrow> real list \<Rightarrow> real \<Rightarrow> real \<Rightarrow> real" where
  "calculateKurtosis rnd values mean' stdDev =
     (if length values < 4 \<or> stdDev = 0 then 0
      else
        let fourthPowerDeviations =
              map (\<lambda>val. rnd ((rnd (rnd (val - mean') / stdDev)) ^ 4)) values;
            sumFourthPowerDeviations = reduce_sum rnd fourthPowerDeviations;
            n = real (length values);
            biasAdjustment = rnd ((n * (n + 1)) / ((n - 1) * (n - 2) * (n - 3)));
            biasCorrection = rnd ((3 * (n - 1) ^ 2) / ((n - 2) * (n - 3)))
        in rnd (rnd (biasAdjustment * sumFourthPowerDeviations) - biasCorrection))"

record EnhancedStatsResult = StatsResult +
  confidenceInterval95 :: ConfidenceInterval
  relativeMarginOfError :: jsnum
  outliers_found :: Outliers
  skewness :: real
  kurtosis :: real

definition calculateEnhancedStats :: "rounding \<Rightarrow> real list \<Rightarrow> error + EnhancedStatsResult" where
  "calculateEnhancedStats rnd values =
     (if length values = 0 then Inl EmptyStatsError
      else
        let d = detectOutliers rnd values;
            clean = cleanValues d;
            sorted = sort clean;
            mean = rnd (reduce_sum rnd clean / real (length clean));
            min = math_min clean;
            max = math_max clean;
            median = sorted ! (length sorted div 2);
            variance = rnd (reduce_squares rnd mean clean / real (length clean));
            stdDev = rnd (sqrt variance);
            confidenceInterval = calculateConfidenceInterval rnd clean mean stdDev;
            marginOfError =
              js_div rnd (js_sub rnd (upper confidenceInterval) (lower confidenceInterval))
                (Fin 2);
            relative = js_mul rnd (js_div rnd marginOfError (Fin mean)) (Fin 100)
        in Inr \<lparr>mean = mean, median = median, min_value = min, max_value = max,
                standardDeviation = stdDev,
                confidenceInterval95 = confidenceInterval,
                relativeMarginOfError = relative,
                outliers_found = outliers d,
                skewness = calculateSkewness rnd clean mean stdDev,
                kurtosis = calculateKurtosis rnd clean mean stdDev\<rparr>)"

text \<open>
  Inputs used below: the doubles nearest to \<open>0.1\<close> and to \<open>1/3\<close>, the sample list of
  the outlier scenario, and a list of even length with one value far from the others.
\<close>

definition d01 :: real where
  "d01 = 7205759403792794 / 2 ^ 56"

definition third :: real where
  "third = 6004799503160661 / 2 ^ 54"

definition sample_C1 :: "real list" where
  "sample_C1 = [10, 10, 10, 10, 10, 100]"

definition sample_C10 :: "real list" where
  "sample_C10 = [1, 2, 3, 4, 5, 1000]"

section \<open>The core: single runs, comparison (unnamed/part_001, first file)\<close>

text \<open>
  The host runtime. \<open>'w\<close> is the state of the world outside the program: the
  clock, the heap, the console. \<^verbatim>\<open>performance.now()\<close> and
  \<^verbatim>\<open>process.memoryUsage()\<close> read it; \<^verbatim>\<open>forceGc()\<close> (which calls
  \<^verbatim>\<open>global.gc\<close> when the host has one and does nothing otherwise),
  \<^verbatim>\<open>console.warn\<close> and the benchmark function change it. A benchmark function is a
  function \<open>'w \<Rightarrow> 'a jsval \<times> 'w\<close>: it returns a value and does not throw.
\<close>

record MemoryDelta =
  heapUsed :: real
  heapTotal :: real
  rss :: real
  external :: real

type_synonym MemorySnapshot = MemoryDelta

record 'w host =
  now :: "'w \<Rightarrow> real"
  memoryUsage :: "'w \<Rightarrow> MemorySnapshot"
  forceGc :: "'w \<Rightarrow> 'w"
  warn :: "string \<Rightarrow> 'w \<Rightarrow> 'w"

text \<open>
  A value returned by a benchmark function: a number, \<^verbatim>\<open>undefined\<close>, or some other
  value (a string, \<^verbatim>\<open>null\<close>, a boolean, an object, a BigInt).
\<close>

datatype 'a jsval = JNumber jsnum | JUndefined | JOther 'a

type_synonym ('w, 'a) BenchmarkFunction = "'w \<Rightarrow> 'a jsval \<times> 'w"

text \<open>An option that is \<open>None\<close> is a key the caller did not pass.\<close>

record BenchmarkOptions =
  iterations_opt :: "jsnum option"
  runs_opt :: "jsnum option"
  warmupRuns_opt :: "jsnum option"
  gcBetweenRuns_opt :: "bool option"

definition no_options :: BenchmarkOptions where
  "no_options = \<lparr>iterations_opt = None, runs_opt = None, warmupRuns_opt = None,
                  gcBetweenRuns_opt = None\<rparr>"

definition DEFAULT_OPTIONS :: BenchmarkOptions where
  "DEFAULT_OPTIONS = \<lparr>iterations_opt = Some (Fin 100000), runs_opt = Some (Fin 1),
                       warmupRuns_opt = Some (Fin 0), gcBetweenRuns_opt = Some True\<rparr>"

text \<open>One key of \<^verbatim>\<open>{ ...defaults, ...options }\<close>.\<close>

definition spread :: "'b option \<Rightarrow> 'b option \<Rightarrow> 'b option" where
  "spread d x = (case x of None \<Rightarrow> d | Some v \<Rightarrow> Some v)"

definition merge_options :: "BenchmarkOptions \<Rightarrow> BenchmarkOptions \<Rightarrow> BenchmarkOptions" where
  "merge_options d options =
     \<lparr>iterations_opt = spread (iterations_opt d) (iterations_opt options),
      runs_opt = spread (runs_opt d) (runs_opt options),
      warmupRuns_opt = spread (warmupRuns_opt d) (warmupRuns_opt options),
      gcBetweenRuns_opt = spread (gcBetweenRuns_opt d) (gcBetweenRuns_opt options)\<rparr>"

record 'a BenchmarkResult =
  duration :: real
  iterations :: jsnum
  operationsPerSecond :: jsnum
  memoryDelta :: MemoryDelta
  result :: "'a jsval"

definition calculateMemoryDelta :: "rounding \<Rightarrow> MemorySnapshot \<Rightarrow> MemorySnapshot \<Rightarrow> MemoryDelta" where
  "calculateMemoryDelta rnd before after =
     \<lparr>heapUsed = rnd (heapUsed after - heapUsed before),
      heapTotal = rnd (heapTotal after - heapTotal before),
      rss = rnd (rss after - rss before),
      external = rnd (external after - external before)\<rparr>"

text \<open>\<^verbatim>\<open>if (opts.gcBetweenRuns) forceGc()\<close>.\<close>

definition gc_if :: "'w host \<Rightarrow> bool option \<Rightarrow> 'w \<Rightarrow> 'w" where
  "gc_if h flag w = (if flag = Some True then forceGc h w else w)"

text \<open>
  The warmup loop of \<^verbatim>\<open>runBenchmark\<close> (\<open>n\<close> rounds of a call and, if asked for, a
  collection) and its measured loop (\<open>n\<close> calls, the last value kept).
\<close>

fun warmup_loop :: "'w host \<Rightarrow> bool option \<Rightarrow> ('w, 'a) BenchmarkFunction \<Rightarrow> nat \<Rightarrow> 'w \<Rightarrow> 'w" where
  "warmup_loop h flag benchmarkFn 0 w = w"
| "warmup_loop h flag benchmarkFn (Suc n) w =
     warmup_loop h flag benchmarkFn n (gc_if h flag (snd (benchmarkFn w)))"

fun measured_loop :: "('w, 'a) BenchmarkFunction \<Rightarrow> nat \<Rightarrow> 'a jsval \<times> 'w \<Rightarrow> 'a jsval \<times> 'w" where
  "measured_loop benchmarkFn 0 rw = rw"
| "measured_loop benchmarkFn (Suc n) rw = measured_loop benchmarkFn n (benchmarkFn (snd rw))"

text \<open>
  \<^verbatim>\<open>runBenchmark\<close>. The value is \<open>None\<close> when the call does not return (a loop bound
  of \<open>Infinity\<close>); it has no error branch, since the function has no \<^verbatim>\<open>throw\<close>.
\<close>

definition runBenchmark ::
    "rounding \<Rightarrow> 'w host \<Rightarrow> ('w, 'a) BenchmarkFunction \<Rightarrow> BenchmarkOptions \<Rightarrow> 'w
      \<Rightarrow> ('a BenchmarkResult \<times> 'w) option" where
  "runBenchmark rnd h benchmarkFn options w =
     (let opts = merge_options DEFAULT_OPTIONS options;
          w1 = gc_if h (gcBetweenRuns_opt opts) w
      in case loop_count (js_or (warmupRuns_opt opts) (Fin 0)) of
           None \<Rightarrow> None
         | Some warmups \<Rightarrow>
             let w2 = warmup_loop h (gcBetweenRuns_opt opts) benchmarkFn warmups w1;
                 initialMemory = memoryUsage h w2;
                 startTime = now h w2
             in case loop_count (js_or (iterations_opt opts) (Fin 1)) of
                  None \<Rightarrow> None
                | Some n \<Rightarrow>
                    let (result, w3) = measured_loop benchmarkFn n (JUndefined, w2);
                        endTime = now h w3;
                        finalMemory = memoryUsage h w3;
                        duration = rnd (endTime - startTime);
                        memoryDelta = calculateMemoryDelta rnd initialMemory finalMemory;
                        iterations = js_or (iterations_opt opts) (Fin 1);
                        operationsPerSecond =
                          js_mul rnd (js_div rnd iterations (Fin duration)) (Fin 1000)
                    in Some (\<lparr>duration = duration, iterations = iterations,
                               operationsPerSecond = operationsPerSecond,
                               memoryDelta = memoryDelta, result = result\<rparr>, w3))"

record Comparison =
  timeRatio :: jsnum
  opsRatio :: jsnum
  memoryRatio :: jsnum
  fasterName :: string
  percentFaster :: jsnum

text \<open>Lines 224 to 232 of \<^verbatim>\<open>compareBenchmarks\<close>: the comparison of the two results.\<close>

definition comparison ::
    "rounding \<Rightarrow> string \<Rightarrow> string \<Rightarrow> 'a BenchmarkResult \<Rightarrow> 'b BenchmarkResult \<Rightarrow> Comparison" where
  "comparison rnd nameA nameB resultA resultB =
     (let timeRatio = js_div rnd (Fin (duration resultA)) (Fin (duration resultB));
          opsRatio = js_div rnd (operationsPerSecond resultB) (operationsPerSecond resultA);
          memoryRatio = js_div rnd (Fin (heapUsed (memoryDelta resultA)))
                          (Fin (heapUsed (memoryDelta resultB)));
          fasterName = (if js_gt timeRatio (Fin 1) then nameB else nameA);
          percentFaster =
            (if js_gt timeRatio (Fin 1)
             then js_mul rnd (js_sub rnd timeRatio (Fin 1)) (Fin 100)
             else js_mul rnd (js_sub rnd (js_div rnd (Fin 1) timeRatio) (Fin 1)) (Fin 100))
      in \<lparr>timeRatio = timeRatio, opsRatio = opsRatio, memoryRatio = memoryRatio,
          fasterName = fasterName, percentFaster = percentFaster\<rparr>)"

record ('a, 'b) CompareResult =
  resultA :: "'a BenchmarkResult"
  resultB :: "'b BenchmarkResult"
  comparison_of :: Comparison

definition compareBenchmarks ::
    "rounding \<Rightarrow> 'w host \<Rightarrow> string \<times> ('w, 'a) BenchmarkFunction
      \<Rightarrow> string \<times> ('w, 'b) BenchmarkFunction \<Rightarrow> BenchmarkOptions \<Rightarrow> 'w
      \<Rightarrow> (('a, 'b) CompareResult \<times> 'w) option" where
  "compareBenchmarks rnd h benchmarkA benchmarkB options w =
     (case runBenchmark rnd h (snd benchmarkA) options w of
        None \<Rightarrow> None
      | Some (resA, w1) \<Rightarrow>
          (case runBenchmark rnd h (snd benchmarkB) options w1 of
             None \<Rightarrow> None
           | Some (resB, w2) \<Rightarrow>
               Some (\<lparr>resultA = resA, resultB = resB,
                      comparison_of = comparison rnd (fst benchmarkA) (fst benchmarkB) resA resB\<rparr>,
                     w2)))"

section \<open>Merging the reports of isolated contexts (unnamed/part_001, second file)\<close>

text \<open>
  The values that are neither a number nor \<^verbatim>\<open>undefined\<close> (a string, \<^verbatim>\<open>null\<close>, a
  boolean, an object, a BigInt) are the type \<open>'a\<close>. What \<^verbatim>\<open>+\<close> makes of such an operand
  (a string is concatenated with the text of the other operand, \<^verbatim>\<open>null\<close> and a boolean
  count as numbers, an object is converted first, a BigInt next to a number throws) and
  the number that \<^verbatim>\<open>/\<close> converts such a value to (or the error it throws) are rules of
  the language that are left open here: they are the two fields of a parameter \<open>co\<close>,
  and a statement about \<open>co\<close> holds whatever these rules are.
\<close>

record 'a coercion =
  plus_other :: "'a jsval \<Rightarrow> 'a jsval \<Rightarrow> error + 'a jsval"
  number_of_other :: "'a \<Rightarrow> error + jsnum"

text \<open>
  \<^verbatim>\<open>a + b\<close>: two numbers are added; a number and \<^verbatim>\<open>undefined\<close> give \<open>NaN\<close>; every
  other pair of operands is left to \<open>co\<close>. \<^verbatim>\<open>typeof v === 'number'\<close>. The number that
  \<^verbatim>\<open>v / n\<close> takes for \<open>v\<close>. And \<^verbatim>\<open>values.reduce((sum, v) => sum + v, start)\<close>, which
  throws what \<^verbatim>\<open>+\<close> throws.
\<close>

fun js_plus :: "rounding \<Rightarrow> 'a coercion \<Rightarrow> 'a jsval \<Rightarrow> 'a jsval \<Rightarrow> error + 'a jsval" where
  "js_plus rnd co (JNumber a) (JNumber b) = Inr (JNumber (js_add rnd a b))"
| "js_plus rnd co (JNumber a) JUndefined = Inr (JNumber NaN)"
| "js_plus rnd co JUndefined (JNumber b) = Inr (JNumber NaN)"
| "js_plus rnd co JUndefined JUndefined = Inr (JNumber NaN)"
| "js_plus rnd co a b = plus_other co a b"

fun is_number :: "'a jsval \<Rightarrow> bool" where
  "is_number (JNumber a) = True"
| "is_number v = False"

fun js_to_number :: "'a coercion \<Rightarrow> 'a jsval \<Rightarrow> error + jsnum" where
  "js_to_number co (JNumber a) = Inr a"
| "js_to_number co JUndefined = Inr NaN"
| "js_to_number co (JOther v) = number_of_other co v"

fun reduce_plus :: "rounding \<Rightarrow> 'a coercion \<Rightarrow> 'a jsval \<Rightarrow> 'a jsval list \<Rightarrow> error + 'a jsval" where
  "reduce_plus rnd co acc [] = Inr acc"
| "reduce_plus rnd co acc (v # vs) =
     (case js_plus rnd co acc v of
        Inl e \<Rightarrow> Inl e
      | Inr acc' \<Rightarrow> reduce_plus rnd co acc' vs)"

text \<open>
  The reports that the contexts of this repository send carry one key besides the four
  fixed ones, \<^verbatim>\<open>result\<close>; it is the custom key of \<^verbatim>\<open>combineResults\<close>.
\<close>

definition accumulate :: "rounding \<Rightarrow> real \<Rightarrow> 'a BenchmarkResult \<Rightarrow> 'a BenchmarkResult \<Rightarrow> 'a BenchmarkResult" where
  "accumulate rnd n combined r =
     combined\<lparr>duration := rnd (duration combined + rnd (duration r / n)),
              operationsPerSecond :=
                js_add rnd (operationsPerSecond combined)
                  (js_div rnd (operationsPerSecond r) (Fin n)),
              memoryDelta :=
                \<lparr>heapUsed = rnd (heapUsed (memoryDelta combined) + rnd (heapUsed (memoryDelta r) / n)),
                 heapTotal = rnd (heapTotal (memoryDelta combined) + rnd (heapTotal (memoryDelta r) / n)),
                 rss = rnd (rss (memoryDelta combined) + rnd (rss (memoryDelta r) / n)),
                 external = rnd (external (memoryDelta combined) + rnd (external (memoryDelta r) / n))\<rparr>\<rparr>"

text \<open>The object that \<^verbatim>\<open>combineResults\<close> starts from; \<open>i\<close> is the first report's iteration count.\<close>

definition combine_start :: "jsnum \<Rightarrow> 'a BenchmarkResult" where
  "combine_start i =
     \<lparr>duration = 0, iterations = i, operationsPerSecond = Fin 0,
      memoryDelta = \<lparr>heapUsed = 0, heapTotal = 0, rss = 0, external = 0\<rparr>,
      result = JUndefined\<rparr>"

definition combineResults ::
    "rounding \<Rightarrow> 'a coercion \<Rightarrow> 'a BenchmarkResult list \<Rightarrow> error + 'a BenchmarkResult" where
  "combineResults rnd co results =
     (if length results = 0 then Inl NoResultsError
      else if length results = 1 then Inr (results ! 0)
      else
        let n = real (length results);
            combined = foldl (accumulate rnd n) (combine_start (iterations (results ! 0))) results
        in case result (results ! 0) of
             JNumber x \<Rightarrow>
               (case reduce_plus rnd co (JNumber (Fin 0)) (map result results) of
                  Inl e \<Rightarrow> Inl e
                | Inr added \<Rightarrow>
                    (case js_to_number co added of
                       Inl e \<Rightarrow> Inl e
                     | Inr t \<Rightarrow> Inr (combined\<lparr>result := JNumber (js_div rnd t (Fin n))\<rparr>)))
           | v \<Rightarrow> Inr (combined\<lparr>result := v\<rparr>))"

text \<open>
  A host for concrete runs. The world is the number of calls of the benchmark function
  made so far; each call takes one millisecond and returns nothing; memory does not
  change.
\<close>

definition counting_host :: "nat host" where
  "counting_host =
     \<lparr>now = (\<lambda>w. real w),
      memoryUsage = (\<lambda>w. \<lparr>heapUsed = 0, heapTotal = 0, rss = 0, external = 0\<rparr>),
      forceGc = (\<lambda>w. w),
      warn = (\<lambda>msg w. w)\<rparr>"

definition counting_fn :: "(nat, unit) BenchmarkFunction" where
  "counting_fn w = (JUndefined, Suc w)"

text \<open>A report with a given duration and iteration count, as a context would send it.\<close>

definition report :: "real \<Rightarrow> real \<Rightarrow> unit BenchmarkResult" where
  "report d n =
     \<lparr>duration = d, iterations = Fin n,
      operationsPerSecond = js_mul exact (js_div exact (Fin n) (Fin d)) (Fin 1000),
      memoryDelta = \<lparr>heapUsed = 0, heapTotal = 0, rss = 0, external = 0\<rparr>,
      result = JUndefined\<rparr>"

section \<open>The orchestrator of isolated contexts (unnamed/part_001, second file)\<close>

text \<open>
  JavaScript runs the callbacks of \<^verbatim>\<open>runIsolatedBenchmark\<close> one at a time, so the
  concurrent contexts are a sequence of events, in the order in which the handlers run:
  a message, an \<^verbatim>\<open>'error'\<close> event, an \<^verbatim>\<open>'exit'\<close> event. The two launchers install
  the same three handlers. The temporary file is modelled by the number of calls of
  \<^verbatim>\<open>cleanupTempFile\<close>; an exception that escapes a handler is recorded in
  \<open>uncaught\<close>.
\<close>

datatype MessageType = RUN_BENCHMARK | BENCHMARK_RESULT | ERROR

record 'a BenchmarkMessage =
  msg_type :: MessageType
  msg_result :: "'a BenchmarkResult option"
  msg_error :: "string option"

datatype 'a context_event =
  OnMessage "'a BenchmarkMessage"
| OnError error
| OnExit int

datatype 'a settlement = Pending | Resolved "'a BenchmarkResult" | Rejected error

text \<open>\<^verbatim>\<open>resolve\<close> and \<^verbatim>\<open>reject\<close>: a promise settles once.\<close>

definition settle :: "'a settlement \<Rightarrow> 'a settlement \<Rightarrow> 'a settlement" where
  "settle new old = (case old of Pending \<Rightarrow> new | Resolved c \<Rightarrow> old | Rejected e \<Rightarrow> old)"

record 'a orchestration =
  results :: "'a BenchmarkResult list"
  completedCount :: nat
  errorOccurred :: bool
  promise :: "'a settlement"
  cleanups :: nat
  uncaught :: "error list"

text \<open>\<^verbatim>\<open>completedCount === opts.processCount\<close>.\<close>

fun count_is :: "nat \<Rightarrow> jsnum option \<Rightarrow> bool" where
  "count_is n (Some (Fin x)) = (real n = x)"
| "count_is n pc = False"

definition handleCompletion ::
    "rounding \<Rightarrow> 'a coercion \<Rightarrow> jsnum option \<Rightarrow> 'a BenchmarkResult option \<Rightarrow> error option
      \<Rightarrow> 'a orchestration \<Rightarrow> 'a orchestration" where
  "handleCompletion rnd co processCount res err s =
     (if errorOccurred s then s
      else case err of
        Some e \<Rightarrow>
          s\<lparr>errorOccurred := True, cleanups := cleanups s + 1,
            promise := settle (Rejected e) (promise s)\<rparr>
      | None \<Rightarrow>
          let s1 = (case res of Some r \<Rightarrow> s\<lparr>results := results s @ [r]\<rparr> | None \<Rightarrow> s);
              s2 = s1\<lparr>completedCount := completedCount s1 + 1\<rparr>
          in if count_is (completedCount s2) processCount then
               (case combineResults rnd co (results s2) of
                  Inr combinedResult \<Rightarrow>
                    s2\<lparr>cleanups := cleanups s2 + 1,
                       promise := settle (Resolved combinedResult) (promise s2)\<rparr>
                | Inl e \<Rightarrow> s2\<lparr>cleanups := cleanups s2 + 1, uncaught := uncaught s2 @ [e]\<rparr>)
             else s2)"

text \<open>The handlers that \<^verbatim>\<open>launchWorkerThread\<close> and \<^verbatim>\<open>launchChildProcess\<close> install.\<close>

fun on_event ::
    "rounding \<Rightarrow> 'a coercion \<Rightarrow> jsnum option \<Rightarrow> 'a context_event \<Rightarrow> 'a orchestration \<Rightarrow> 'a orchestration" where
  "on_event rnd co processCount (OnMessage m) s =
     (if msg_type m = BENCHMARK_RESULT then
        handleCompletion rnd co processCount (msg_result m) None s
      else if msg_type m = ERROR then
        handleCompletion rnd co processCount None
          (Some (ContextError (case msg_error m of None \<Rightarrow> [] | Some text \<Rightarrow> text))) s
      else s)"
| "on_event rnd co processCount (OnError e) s = handleCompletion rnd co processCount None (Some e) s"
| "on_event rnd co processCount (OnExit code) s =
     (if code \<noteq> 0 then handleCompletion rnd co processCount None (Some (ExitCodeError code)) s
      else s)"

definition on_events ::
    "rounding \<Rightarrow> 'a coercion \<Rightarrow> jsnum option \<Rightarrow> 'a context_event list \<Rightarrow> 'a orchestration \<Rightarrow> 'a orchestration" where
  "on_events rnd co processCount events s = foldl (\<lambda>s e. on_event rnd co processCount e s) s events"

record IsolatedBenchmarkOptions = BenchmarkOptions +
  useWorkerThreads_opt :: "bool option"
  processCount_opt :: "jsnum option"

text \<open>\<^verbatim>\<open>/^[a-zA-Z0-9_$]+$/.test(benchmarkName)\<close>.\<close>

definition valid_name :: "string \<Rightarrow> bool" where
  "valid_name name =
     (name \<noteq> [] \<and>
      list_all (\<lambda>c. c \<in> set (''abcdefghijklmnopqrstuvwxyz'' @ ''ABCDEFGHIJKLMNOPQRSTUVWXYZ''
                               @ ''0123456789_$'')) name)"

text \<open>
  \<^verbatim>\<open>runIsolatedBenchmark\<close>: the state of the call after the given events.
  \<open>launch_error\<close> is the exception, if any, that the launching loop throws; the
  \<^verbatim>\<open>catch\<close> rejects with it. The default of \<open>processCount\<close> is \<open>1\<close>.
\<close>

definition initial_orchestration :: "'a orchestration" where
  "initial_orchestration =
     \<lparr>results = [], completedCount = 0, errorOccurred = False,
      promise = Pending, cleanups = 0, uncaught = []\<rparr>"

definition runIsolatedBenchmark ::
    "rounding \<Rightarrow> 'a coercion \<Rightarrow> string \<Rightarrow> ('z IsolatedBenchmarkOptions_scheme) \<Rightarrow> error option
      \<Rightarrow> 'a context_event list \<Rightarrow> error + 'a orchestration" where
  "runIsolatedBenchmark rnd co benchmarkName options launch_error events =
     (if \<not> valid_name benchmarkName then Inl InvalidNameError
      else
        let processCount = spread (Some (Fin 1)) (processCount_opt options);
            launched = (case launch_error of
                          None \<Rightarrow> initial_orchestration
                        | Some e \<Rightarrow> initial_orchestration\<lparr>cleanups := 1, promise := Rejected e\<rparr>)
        in Inr (on_events rnd co processCount events launched))"

text \<open>
  What an event is to the call: a result report, or a failure (an error report, an
  \<^verbatim>\<open>'error'\<close> event, an exit with a code other than \<open>0\<close>) together with the error it
  carries; and the results that a sequence of events delivers.
\<close>

fun is_report :: "'a context_event \<Rightarrow> bool" where
  "is_report (OnMessage m) = (msg_type m = BENCHMARK_RESULT)"
| "is_report e = False"

fun failure_of :: "'a context_event \<Rightarrow> error option" where
  "failure_of (OnMessage m) =
     (if msg_type m = ERROR
      then Some (ContextError (case msg_error m of None \<Rightarrow> [] | Some text \<Rightarrow> text))
      else None)"
| "failure_of (OnError e) = Some e"
| "failure_of (OnExit code) = (if code \<noteq> 0 then Some (ExitCodeError code) else None)"

fun delivered :: "'a context_event list \<Rightarrow> 'a BenchmarkResult list" where
  "delivered [] = []"
| "delivered (OnMessage m # es) =
     (if msg_type m = BENCHMARK_RESULT
      then (case msg_result m of Some r \<Rightarrow> r # delivered es | None \<Rightarrow> delivered es)
      else delivered es)"
| "delivered (e # es) = delivered es"

text \<open>
  The number of result reports among some events; whether an event, if it is a result
  report, carries a result; and that the events \<open>es\<close> resolve the call with \<open>c\<close>: some
  prefix of them has no failure, has as many result reports as \<open>processCount\<close> says,
  and \<open>c\<close> is the merge of the results it delivers.
\<close>

definition reports :: "'a context_event list \<Rightarrow> nat" where
  "reports es = length (filter is_report es)"

definition carries_result :: "'a context_event \<Rightarrow> bool" where
  "carries_result e =
     (case e of OnMessage m \<Rightarrow> msg_type m \<noteq> BENCHMARK_RESULT \<or> msg_result m \<noteq> None
              | OnError x \<Rightarrow> True | OnExit code \<Rightarrow> True)"

definition resolved_by ::
    "rounding \<Rightarrow> 'a coercion \<Rightarrow> jsnum option \<Rightarrow> 'a context_event list \<Rightarrow> 'a BenchmarkResult \<Rightarrow> bool" where
  "resolved_by rnd co pc es c \<longleftrightarrow>
     (\<exists>pre post. es = pre @ post \<and> list_all (\<lambda>e. failure_of e = None) pre
        \<and> count_is (reports pre) pc \<and> combineResults rnd co (delivered pre) = Inr c)"

text \<open>The state of a call after a report \<open>e\<close>, before the count is compared.\<close>

definition after_report :: "'a orchestration \<Rightarrow> 'a context_event \<Rightarrow> 'a orchestration" where
  "after_report s e =
     s\<lparr>results := results s @ delivered [e], completedCount := completedCount s + 1\<rparr>"

text \<open>
  A result report and an error report, as the worker scripts send them; and a message of
  type \<^verbatim>\<open>benchmarkResult\<close> that carries no result.
\<close>

definition result_report :: "'a BenchmarkResult \<Rightarrow> 'a context_event" where
  "result_report r = OnMessage \<lparr>msg_type = BENCHMARK_RESULT, msg_result = Some r, msg_error = None\<rparr>"

definition error_report :: "string \<Rightarrow> 'a context_event" where
  "error_report text = OnMessage \<lparr>msg_type = ERROR, msg_result = None, msg_error = Some text\<rparr>"

definition bare_report :: "'a context_event" where
  "bare_report = OnMessage \<lparr>msg_type = BENCHMARK_RESULT, msg_result = None, msg_error = None\<rparr>"

text \<open>Options that ask for \<open>n\<close> contexts and leave every other key out.\<close>

definition isolation_options :: "real \<Rightarrow> IsolatedBenchmarkOptions" where
  "isolation_options n =
     \<lparr>iterations_opt = None, runs_opt = None, warmupRuns_opt = None, gcBetweenRuns_opt = None,
      useWorkerThreads_opt = None, processCount_opt = Some (Fin n)\<rparr>"

section \<open>Adaptive benchmarking (monitoring.ts, third file)\<close>

record AdaptiveBenchmarkOptions = BenchmarkOptions +
  minIterations_opt :: "jsnum option"
  maxIterations_opt :: "jsnum option"
  targetDuration_opt :: "jsnum option"
  maxTime_opt :: "jsnum option"
  targetRSD_opt :: "jsnum option"
  minSamples_opt :: "jsnum option"
  maxSamples_opt :: "jsnum option"
  warmupRatio_opt :: "jsnum option"
  adaptiveSteps_opt :: "jsnum option"

definition no_adaptive_options :: AdaptiveBenchmarkOptions where
  "no_adaptive_options =
     \<lparr>iterations_opt = None, runs_opt = None, warmupRuns_opt = None, gcBetweenRuns_opt = None,
      minIterations_opt = None, maxIterations_opt = None, targetDuration_opt = None,
      maxTime_opt = None, targetRSD_opt = None, minSamples_opt = None, maxSamples_opt = None,
      warmupRatio_opt = None, adaptiveSteps_opt = None\<rparr>"

definition DEFAULT_ADAPTIVE_OPTIONS :: "rounding \<Rightarrow> AdaptiveBenchmarkOptions" where
  "DEFAULT_ADAPTIVE_OPTIONS rnd =
     no_adaptive_options
       \<lparr>minIterations_opt := Some (Fin 1000), maxIterations_opt := Some (Fin 10000000),
        targetDuration_opt := Some (Fin 500), maxTime_opt := Some (Fin 30000),
        targetRSD_opt := Some (Fin 2.0), minSamples_opt := Some (Fin 5),
        maxSamples_opt := Some (Fin 100), warmupRatio_opt := Some (Fin (rnd 0.1)),
        adaptiveSteps_opt := Some (Fin 4)\<rparr>"

definition merge_adaptive ::
    "AdaptiveBenchmarkOptions \<Rightarrow> AdaptiveBenchmarkOptions \<Rightarrow> AdaptiveBenchmarkOptions" where
  "merge_adaptive d options =
     \<lparr>iterations_opt = spread (iterations_opt d) (iterations_opt options),
      runs_opt = spread (runs_opt d) (runs_opt options),
      warmupRuns_opt = spread (warmupRuns_opt d) (warmupRuns_opt options),
      gcBetweenRuns_opt = spread (gcBetweenRuns_opt d) (gcBetweenRuns_opt options),
      minIterations_opt = spread (minIterations_opt d) (minIterations_opt options),
      maxIterations_opt = spread (maxIterations_opt d) (maxIterations_opt options),
      targetDuration_opt = spread (targetDuration_opt d) (targetDuration_opt options),
      maxTime_opt = spread (maxTime_opt d) (maxTime_opt options),
      targetRSD_opt = spread (targetRSD_opt d) (targetRSD_opt options),
      minSamples_opt = spread (minSamples_opt d) (minSamples_opt options),
      maxSamples_opt = spread (maxSamples_opt d) (maxSamples_opt options),
      warmupRatio_opt = spread (warmupRatio_opt d) (warmupRatio_opt options),
      adaptiveSteps_opt = spread (adaptiveSteps_opt d) (adaptiveSteps_opt options)\<rparr>"

text \<open>\<open>n\<close> calls of the function, the values dropped.\<close>

fun call_loop :: "('w, 'a) BenchmarkFunction \<Rightarrow> nat \<Rightarrow> 'w \<Rightarrow> 'w" where
  "call_loop fn 0 w = w"
| "call_loop fn (Suc n) w = call_loop fn n (snd (fn w))"

definition runWarmup :: "'w host \<Rightarrow> ('w, 'a) BenchmarkFunction \<Rightarrow> jsnum \<Rightarrow> 'w \<Rightarrow> 'w option" where
  "runWarmup h fn iterations' w =
     (if js_le iterations' (Fin 0) then Some w
      else case loop_count iterations' of
             None \<Rightarrow> None
           | Some n \<Rightarrow> Some (forceGc h (call_loop fn n (forceGc h w))))"

definition measureDuration ::
    "rounding \<Rightarrow> 'w host \<Rightarrow> ('w, 'a) BenchmarkFunction \<Rightarrow> jsnum \<Rightarrow> 'w \<Rightarrow> (real \<times> 'w) option" where
  "measureDuration rnd h fn iterations' w =
     (let w1 = forceGc h w;
          start = now h w1
      in case loop_count iterations' of
           None \<Rightarrow> None
         | Some n \<Rightarrow>
             let w2 = call_loop fn n w1;
                 end = now h w2
             in Some (rnd (end - start), w2))"

text \<open>\<^verbatim>\<open>Math.max(lo, Math.min(hi, iterations))\<close>, the clamp of both phases.\<close>

definition clamp_iterations :: "jsnum \<Rightarrow> jsnum \<Rightarrow> jsnum \<Rightarrow> jsnum" where
  "clamp_iterations lo hi iterations' = js_max lo (js_min hi iterations')"

definition findIterationsForTargetDuration ::
    "rounding \<Rightarrow> 'w host \<Rightarrow> ('w, 'a) BenchmarkFunction \<Rightarrow> AdaptiveBenchmarkOptions \<Rightarrow> 'w
      \<Rightarrow> (jsnum \<times> 'w) option" where
  "findIterationsForTargetDuration rnd h benchmarkFn options w =
     (let opts = merge_adaptive (DEFAULT_ADAPTIVE_OPTIONS rnd) options;
          minIterations = js_or (minIterations_opt opts) (Fin 1000);
          maxIterations = js_or (maxIterations_opt opts) (Fin 10000000);
          targetDuration = js_or (targetDuration_opt opts) (Fin 500);
          warmupIterations =
            js_max (Fin 100)
              (js_floor (js_mul rnd minIterations (js_or (warmupRatio_opt opts) (Fin (rnd 0.1)))))
      in case runWarmup h benchmarkFn warmupIterations w of
           None \<Rightarrow> None
         | Some w1 \<Rightarrow>
             (case measureDuration rnd h benchmarkFn minIterations w1 of
                None \<Rightarrow> None
              | Some (duration1, w2) \<Rightarrow>
                  let iterationsPerMs = js_div rnd minIterations (Fin duration1);
                      scaled = js_floor (js_mul rnd iterationsPerMs targetDuration);
                      iterations1 = clamp_iterations minIterations maxIterations scaled
                  in case measureDuration rnd h benchmarkFn iterations1 w2 of
                       None \<Rightarrow> None
                     | Some (duration2, w3) \<Rightarrow>
                         if js_gt (js_abs (js_sub rnd (Fin duration2) targetDuration))
                              (js_mul rnd targetDuration (Fin (rnd 0.2)))
                         then
                           let adjustmentFactor = js_div rnd targetDuration (Fin duration2);
                               adjusted = js_floor (js_mul rnd iterations1 adjustmentFactor)
                           in Some (clamp_iterations minIterations maxIterations adjusted, w3)
                         else Some (iterations1, w3)))"

text \<open>The variables of the loop of \<^verbatim>\<open>runAdaptiveBenchmark\<close>, and the world.\<close>

record ('w, 'a) loop_state =
  st_world :: 'w
  st_iterations :: jsnum
  st_currentStep :: nat
  st_samples :: "'a BenchmarkResult list"
  st_adjustmentSteps :: nat
  st_rsd :: jsnum

text \<open>The condition of the \<^verbatim>\<open>while\<close>.\<close>

definition loop_condition ::
    "rounding \<Rightarrow> 'w host \<Rightarrow> AdaptiveBenchmarkOptions \<Rightarrow> real \<Rightarrow> ('w, 'a) loop_state \<Rightarrow> bool" where
  "loop_condition rnd h opts startTime st =
     (js_lt (Fin (real (length (st_samples st)))) (js_or (minSamples_opt opts) (Fin 5))
      \<or> (js_gt (st_rsd st) (js_or (targetRSD_opt opts) (Fin 2.0))
         \<and> js_lt (Fin (real (length (st_samples st)))) (js_or (maxSamples_opt opts) (Fin 100))
         \<and> js_lt (Fin (rnd (now h (st_world st) - startTime)))
              (js_or (maxTime_opt opts) (Fin 30000))))"

text \<open>
  Lines 505 to 526: the statistics of the samples so far and the adjustment of the
  iteration count.
\<close>

text \<open>\<^verbatim>\<open>(stats.standardDeviation / stats.mean) * 100\<close>.\<close>

definition relative_sd :: "rounding \<Rightarrow> StatsResult \<Rightarrow> jsnum" where
  "relative_sd rnd stats =
     js_mul rnd (js_div rnd (Fin (standardDeviation stats)) (Fin (mean stats))) (Fin 100)"

definition adjust ::
    "rounding \<Rightarrow> AdaptiveBenchmarkOptions \<Rightarrow> jsnum \<Rightarrow> ('w, 'a) loop_state
      \<Rightarrow> error + ('w, 'a) loop_state" where
  "adjust rnd opts initialIterations st =
     (if 3 \<le> length (st_samples st) then
        (case calculateStats rnd (map duration (st_samples st)) of
           Inl e \<Rightarrow> Inl e
         | Inr stats \<Rightarrow>
             let rsd = relative_sd rnd stats;
                 st1 = st\<lparr>st_rsd := rsd\<rparr>
             in if js_le (Fin (real (st_currentStep st1))) (js_or (adaptiveSteps_opt opts) (Fin 4))
                   \<and> js_gt rsd (js_or (targetRSD_opt opts) (Fin 2.0))
                then
                  let iterations' =
                        js_min (js_or (maxIterations_opt opts) (Fin 10000000))
                          (js_floor (js_mul rnd (st_iterations st1) (Fin 1.5)));
                      st2 = st1\<lparr>st_iterations := iterations',
                               st_currentStep := st_currentStep st1 + 1,
                               st_adjustmentSteps := st_adjustmentSteps st1 + 1\<rparr>
                  in if js_gt iterations' (js_mul rnd initialIterations (Fin 2))
                     then Inr (st2\<lparr>st_samples := []\<rparr>)
                     else Inr st2
                else Inr st1)
      else Inr st)"

text \<open>
  One round of the loop: a run with the current iteration count, the adjustment, the
  check of the time limit. The boolean says whether the round ends with \<^verbatim>\<open>break\<close>.
\<close>

definition loop_body ::
    "rounding \<Rightarrow> 'w host \<Rightarrow> ('w, 'a) BenchmarkFunction \<Rightarrow> AdaptiveBenchmarkOptions \<Rightarrow> jsnum
      \<Rightarrow> real \<Rightarrow> ('w, 'a) loop_state \<Rightarrow> (error + ('w, 'a) loop_state \<times> bool) option" where
  "loop_body rnd h benchmarkFn opts initialIterations startTime st =
     (case runBenchmark rnd h benchmarkFn
             (no_options\<lparr>iterations_opt := Some (st_iterations st)\<rparr>) (st_world st) of
        None \<Rightarrow> None
      | Some (res, w1) \<Rightarrow>
          (case adjust rnd opts initialIterations
                  (st\<lparr>st_world := w1, st_samples := st_samples st @ [res]\<rparr>) of
             Inl e \<Rightarrow> Some (Inl e)
           | Inr st1 \<Rightarrow>
               if js_gt (Fin (rnd (now h w1 - startTime))) (js_or (maxTime_opt opts) (Fin 30000))
               then Some (Inr (st1\<lparr>st_world :=
                                    warn h ''Adaptive benchmark exceeded maximum time limit'' w1\<rparr>,
                               True))
               else Some (Inr (st1, False))))"

partial_function (option) adaptive_loop ::
    "rounding \<Rightarrow> 'w host \<Rightarrow> ('w, 'a) BenchmarkFunction \<Rightarrow> AdaptiveBenchmarkOptions \<Rightarrow> jsnum
      \<Rightarrow> real \<Rightarrow> ('w, 'a) loop_state \<Rightarrow> (error + ('w, 'a) loop_state) option" where
  "adaptive_loop rnd h benchmarkFn opts initialIterations startTime st =
     (if loop_condition rnd h opts startTime st then
        (case loop_body rnd h benchmarkFn opts initialIterations startTime st of
           None \<Rightarrow> None
         | Some (Inl e) \<Rightarrow> Some (Inl e)
         | Some (Inr (st1, stop)) \<Rightarrow>
             if stop then Some (Inr st1)
             else adaptive_loop rnd h benchmarkFn opts initialIterations startTime st1)
      else Some (Inr st))"

record Calibration =
  initialIterations :: jsnum
  finalIterations :: jsnum
  samples :: nat
  relativeStandardDeviation :: jsnum
  adjustmentSteps :: nat
  timeSpent :: real

record 'a AdaptiveBenchmarkResult = "'a BenchmarkResult" +
  calibration :: Calibration

text \<open>The warmup before the loop: \<^verbatim>\<open>opts.warmupRuns || 1\<close> rounds of \<^verbatim>\<open>runWarmup\<close>.\<close>

fun warmup_rounds ::
    "'w host \<Rightarrow> ('w, 'a) BenchmarkFunction \<Rightarrow> jsnum \<Rightarrow> nat \<Rightarrow> 'w \<Rightarrow> 'w option" where
  "warmup_rounds h fn iterations' 0 w = Some w"
| "warmup_rounds h fn iterations' (Suc n) w =
     (case runWarmup h fn iterations' w of
        None \<Rightarrow> None
      | Some w1 \<Rightarrow> warmup_rounds h fn iterations' n w1)"

text \<open>Lines 535 to 564: the result, from the samples that the loop leaves.\<close>

definition adaptive_result ::
    "rounding \<Rightarrow> 'w host \<Rightarrow> jsnum \<Rightarrow> real \<Rightarrow> ('w, 'a) loop_state
      \<Rightarrow> error + 'a AdaptiveBenchmarkResult" where
  "adaptive_result rnd h initial startTime st =
     (case calculateStats rnd (map duration (st_samples st)) of
        Inl e \<Rightarrow> Inl e
      | Inr durationStats \<Rightarrow>
          let n = real (length (st_samples st));
              average = (\<lambda>field. rnd (reduce_sum rnd (map (\<lambda>s. field (memoryDelta s)) (st_samples st)) / n))
          in Inr \<lparr>duration = mean durationStats,
                  iterations = st_iterations st,
                  operationsPerSecond =
                    js_div rnd (st_iterations st) (Fin (rnd (mean durationStats / 1000))),
                  memoryDelta = \<lparr>heapUsed = average heapUsed, heapTotal = average heapTotal,
                                  rss = average rss, external = average external\<rparr>,
                  result = result (last (st_samples st)),
                  calibration =
                    \<lparr>initialIterations = initial,
                     finalIterations = st_iterations st,
                     samples = length (st_samples st),
                     relativeStandardDeviation = st_rsd st,
                     adjustmentSteps = st_adjustmentSteps st,
                     timeSpent = rnd (now h (st_world st) - startTime)\<rparr>\<rparr>)"

text \<open>
  \<^verbatim>\<open>runAdaptiveBenchmark\<close>. \<open>None\<close>: the call does not return; \<open>Some (Inl e)\<close>: it
  throws \<open>e\<close>; \<open>Some (Inr (r, w))\<close>: it returns \<open>r\<close> and leaves the world \<open>w\<close>.
\<close>

definition runAdaptiveBenchmark ::
    "rounding \<Rightarrow> 'w host \<Rightarrow> ('w, 'a) BenchmarkFunction \<Rightarrow> AdaptiveBenchmarkOptions \<Rightarrow> 'w
      \<Rightarrow> (error + 'a AdaptiveBenchmarkResult \<times> 'w) option" where
  "runAdaptiveBenchmark rnd h benchmarkFn options w =
     (let opts = merge_adaptive (DEFAULT_ADAPTIVE_OPTIONS rnd) options
      in case findIterationsForTargetDuration rnd h benchmarkFn opts w of
           None \<Rightarrow> None
         | Some (initial, w1) \<Rightarrow>
             let startTime = now h w1
             in case loop_count (js_or (warmupRuns_opt opts) (Fin 1)) of
                  None \<Rightarrow> None
                | Some rounds \<Rightarrow>
                    (case warmup_rounds h benchmarkFn initial rounds w1 of
                       None \<Rightarrow> None
                     | Some w2 \<Rightarrow>
                         (case adaptive_loop rnd h benchmarkFn opts initial startTime
                                 \<lparr>st_world = w2, st_iterations = initial, st_currentStep = 1,
                                  st_samples = [], st_adjustmentSteps = 0, st_rsd = PInf\<rparr> of
                            None \<Rightarrow> None
                          | Some (Inl e) \<Rightarrow> Some (Inl e)
                          | Some (Inr st) \<Rightarrow>
                              (case adaptive_result rnd h initial startTime st of
                                 Inl e \<Rightarrow> Some (Inl e)
                               | Inr combinedResult \<Rightarrow>
                                   Some (Inr (combinedResult, st_world st))))))"

text \<open>
  A host for concrete adaptive runs: the world is the number of calls made so far, and
  the clock shows its square, so each call takes longer than the one before.
\<close>

definition slowing_host :: "nat host" where
  "slowing_host =
     \<lparr>now = (\<lambda>w. real (w * w)),
      memoryUsage = (\<lambda>w. \<lparr>heapUsed = 0, heapTotal = 0, rss = 0, external = 0\<rparr>),
      forceGc = (\<lambda>w. w),
      warn = (\<lambda>msg w. w)\<rparr>"

text \<open>
  The value in effect for an option \<open>x\<close> whose default is \<open>d\<close>, after the merge with
  the defaults and \<^verbatim>\<open>|| d\<close>; and that an iteration count is an integer between two
  bounds.
\<close>

definition effective :: "jsnum option \<Rightarrow> jsnum \<Rightarrow> jsnum" where
  "effective x d = js_or (spread (Some d) x) d"

definition iterations_between :: "int \<Rightarrow> int \<Rightarrow> jsnum \<Rightarrow> bool" where
  "iterations_between lo hi x \<longleftrightarrow> (\<exists>i. x = Fin (of_int i) \<and> lo \<le> i \<and> i \<le> hi)"

text \<open>
  The result of a run of \<open>n\<close> calls of the counting function on the slowing host that
  starts after \<open>w\<close> calls.
\<close>

definition slowing_sample :: "nat \<Rightarrow> nat \<Rightarrow> unit BenchmarkResult" where
  "slowing_sample w n =
     \<lparr>duration = real ((w + n) * (w + n)) - real (w * w),
      iterations = Fin (real n),
      operationsPerSecond =
        js_mul exact (js_div exact (Fin (real n)) (Fin (real ((w + n) * (w + n)) - real (w * w))))
          (Fin 1000),
      memoryDelta = \<lparr>heapUsed = 0, heapTotal = 0, rss = 0, external = 0\<rparr>,
      result = JUndefined\<rparr>"

text \<open>
  Options of three adaptive runs: a minimum above the maximum; bounds in order; and a
  small iteration count with a time limit of five seconds.
\<close>

definition options_min_above_max :: AdaptiveBenchmarkOptions where
  "options_min_above_max =
     no_adaptive_options\<lparr>minIterations_opt := Some (Fin 8), maxIterations_opt := Some (Fin 4),
                          maxTime_opt := Some (Fin 8000)\<rparr>"

definition options_in_order :: AdaptiveBenchmarkOptions where
  "options_in_order =
     no_adaptive_options\<lparr>minIterations_opt := Some (Fin 8), maxIterations_opt := Some (Fin 100),
                          maxTime_opt := Some (Fin 8000)\<rparr>"

definition options_time_limit :: AdaptiveBenchmarkOptions where
  "options_time_limit =
     no_adaptive_options\<lparr>minIterations_opt := Some (Fin 4), targetDuration_opt := Some (Fin 1),
                          maxTime_opt := Some (Fin 5000)\<rparr>"

text \<open>
  What a run reports of its iteration counts: the initial count, the final count and the
  number of adjustments.
\<close>

definition iteration_report ::
    "(error + 'a AdaptiveBenchmarkResult \<times> 'w) option \<Rightarrow> (error + jsnum \<times> jsnum \<times> nat) option" where
  "iteration_report r =
     map_option
       (map_sum id
          (\<lambda>p. (initialIterations (calibration (fst p)), finalIterations (calibration (fst p)),
                adjustmentSteps (calibration (fst p)))))
       r"

text \<open>The summary that \<^verbatim>\<open>calculateStats\<close> returns for a non-empty array.\<close>

definition stats_of :: "rounding \<Rightarrow> real list \<Rightarrow> StatsResult" where
  "stats_of rnd values = projr (calculateStats rnd values)"

text \<open>
  The options of an adaptive run after the merge with the defaults, for given iteration
  bounds, target duration and time limit; and a state of the loop.
\<close>

definition merged_options :: "real \<Rightarrow> real \<Rightarrow> real \<Rightarrow> real \<Rightarrow> AdaptiveBenchmarkOptions" where
  "merged_options lo hi target limit =
     \<lparr>iterations_opt = None, runs_opt = None, warmupRuns_opt = None, gcBetweenRuns_opt = None,
      minIterations_opt = Some (Fin lo), maxIterations_opt = Some (Fin hi),
      targetDuration_opt = Some (Fin target), maxTime_opt = Some (Fin limit),
      targetRSD_opt = Some (Fin 2), minSamples_opt = Some (Fin 5), maxSamples_opt = Some (Fin 100),
      warmupRatio_opt = Some (Fin (1 / 10)), adaptiveSteps_opt = Some (Fin 4)\<rparr>"

definition loop_at ::
    "nat \<Rightarrow> real \<Rightarrow> nat \<Rightarrow> unit BenchmarkResult list \<Rightarrow> nat \<Rightarrow> jsnum \<Rightarrow> (nat, unit) loop_state" where
  "loop_at w it step xs adj rsd =
     \<lparr>st_world = w, st_iterations = Fin it, st_currentStep = step, st_samples = xs,
      st_adjustmentSteps = adj, st_rsd = rsd\<rparr>"

section \<open>Properties of the rounding\<close>

text \<open>
  Rounding to the nearest double is monotone, odd, exact on the integers up to \<open>2^53\<close>
  in absolute value and commutes with scaling by a power of two.
\<close>

lemma floor_log2_binade:
  assumes "2 powi k \<le> y" "y < 2 powi (k + 1)"
  shows "\<lfloor>log 2 y\<rfloor> = k"
proof -
  have y: "0 < y" using assms(1) by (smt (verit) zero_less_power_int)
  have "real_of_int k \<le> log 2 y"
    using assms(1) y by (simp add: le_log_iff powr_real_of_int')
  moreover have "log 2 y < real_of_int (k + 1)"
  proof -
    have "(2::real) powr real_of_int (k + 1) = 2 powi (k + 1)"
      by (rule powr_real_of_int') simp_all
    then have "y < 2 powr real_of_int (k + 1)" using assms(2) by simp
    then show ?thesis using y by (subst log_less_iff) simp_all
  qed
  ultimately show ?thesis by linarith
qed

lemma fl64_in_binade:
  assumes "2 ^ 52 \<le> \<bar>x\<bar> / 2 powi e" "\<bar>x\<bar> / 2 powi e < 2 ^ 53"
  shows "fl64 x = of_int (round_half_even (x / 2 powi e)) * 2 powi e"
proof -
  have p: "(0::real) < 2 powi e" by simp
  have x: "x \<noteq> 0" using assms(1) by auto
  have "2 powi (e + 52) \<le> \<bar>x\<bar>"
    using assms(1) p by (simp add: power_int_add pos_le_divide_eq mult.commute)
  moreover have "\<bar>x\<bar> < 2 powi (e + 52 + 1)"
    using assms(2) p by (simp add: power_int_add pos_divide_less_eq mult.commute)
  ultimately have "\<lfloor>log 2 \<bar>x\<bar>\<rfloor> = e + 52" by (rule floor_log2_binade)
  then show ?thesis using x by (simp add: fl64_def Let_def)
qed

lemma round_half_even_of_int: "round_half_even (of_int k) = k"
  by (simp add: round_half_even_def)

lemma round_half_even_bounds:
  "\<lfloor>x\<rfloor> \<le> round_half_even x" "round_half_even x \<le> \<lfloor>x\<rfloor> + 1"
  by (simp_all add: round_half_even_def Let_def)

lemma round_half_even_mono:
  assumes "x \<le> y"
  shows "round_half_even x \<le> round_half_even y"
proof (cases "\<lfloor>x\<rfloor> = \<lfloor>y\<rfloor>")
  case True
  have "x - of_int \<lfloor>x\<rfloor> \<le> y - of_int \<lfloor>x\<rfloor>" using assms by simp
  then show ?thesis
    unfolding round_half_even_def Let_def True [symmetric] by auto
next
  case False
  have "\<lfloor>x\<rfloor> \<le> \<lfloor>y\<rfloor>" using assms by (rule floor_mono)
  then have "\<lfloor>x\<rfloor> + 1 \<le> \<lfloor>y\<rfloor>" using False by simp
  then show ?thesis
    using round_half_even_bounds(2) [of x] round_half_even_bounds(1) [of y] by linarith
qed

lemma round_half_even_minus: "round_half_even (- x) = - round_half_even x"
proof (cases "x \<in> \<int>")
  case True
  then obtain k where "x = of_int k" by (auto elim: Ints_cases)
  then show ?thesis by (simp add: round_half_even_def flip: of_int_minus)
next
  case False
  have ne: "x \<noteq> of_int \<lfloor>x\<rfloor>"
    using False by (metis Ints_of_int)
  then have f: "\<lfloor>- x\<rfloor> = - \<lfloor>x\<rfloor> - 1"
    by (simp add: floor_minus ceiling_altdef)
  show ?thesis
    unfolding round_half_even_def Let_def f
    using ne by (auto simp: algebra_simps)
qed

lemma log2_binade:
  assumes "0 < y"
  shows "2 powi \<lfloor>log 2 y\<rfloor> \<le> y" "y < 2 powi (\<lfloor>log 2 y\<rfloor> + 1)"
proof -
  have a: "(2::real) powr real_of_int \<lfloor>log 2 y\<rfloor> = 2 powi \<lfloor>log 2 y\<rfloor>"
    by (rule powr_real_of_int') simp_all
  have b: "(2::real) powr real_of_int (\<lfloor>log 2 y\<rfloor> + 1) = 2 powi (\<lfloor>log 2 y\<rfloor> + 1)"
    by (rule powr_real_of_int') simp_all
  have "real_of_int \<lfloor>log 2 y\<rfloor> \<le> log 2 y" by simp
  then have "2 powr real_of_int \<lfloor>log 2 y\<rfloor> \<le> y"
    using assms by (subst (asm) le_log_iff) simp_all
  then show "2 powi \<lfloor>log 2 y\<rfloor> \<le> y" by (simp only: a)
  have "log 2 y < real_of_int (\<lfloor>log 2 y\<rfloor> + 1)" by linarith
  then have "y < 2 powr real_of_int (\<lfloor>log 2 y\<rfloor> + 1)"
    using assms by (subst (asm) log_less_iff) simp_all
  then show "y < 2 powi (\<lfloor>log 2 y\<rfloor> + 1)" by (simp only: b)
qed

lemma fl64_minus: "fl64 (- x) = - fl64 x"
  by (simp add: fl64_def Let_def round_half_even_minus)

lemma fl64_pos_range:
  assumes "0 < x"
  defines "e \<equiv> \<lfloor>log 2 x\<rfloor> - 52"
  shows "fl64 x = of_int (round_half_even (x / 2 powi e)) * 2 powi e"
    and "2 powi (e + 52) \<le> fl64 x" and "fl64 x \<le> 2 powi (e + 53)"
proof -
  have p: "(0::real) < 2 powi e" by simp
  show f: "fl64 x = of_int (round_half_even (x / 2 powi e)) * 2 powi e"
    using assms(1) by (simp add: fl64_def Let_def e_def)
  have "2 powi (e + 52) \<le> x" "x < 2 powi (e + 52 + 1)"
    using log2_binade [OF assms(1)] by (simp_all add: e_def)
  then have lo: "of_int (2 ^ 52) \<le> x / 2 powi e" and hi: "x / 2 powi e \<le> of_int (2 ^ 53)"
    using p by (simp_all add: power_int_add pos_le_divide_eq pos_divide_le_eq mult.commute)
  have "round_half_even (of_int (2 ^ 52)) \<le> round_half_even (x / 2 powi e)"
    using lo by (rule round_half_even_mono)
  then have l: "2 ^ 52 \<le> round_half_even (x / 2 powi e)"
    by (simp only: round_half_even_of_int)
  have "round_half_even (x / 2 powi e) \<le> round_half_even (of_int (2 ^ 53))"
    using hi by (rule round_half_even_mono)
  then have h: "round_half_even (x / 2 powi e) \<le> 2 ^ 53"
    by (simp only: round_half_even_of_int)
  have "real_of_int (2 ^ 52) \<le> of_int (round_half_even (x / 2 powi e))"
    using l by (simp only: of_int_le_iff)
  then have "(2::real) ^ 52 \<le> of_int (round_half_even (x / 2 powi e))" by simp
  then have "(2::real) ^ 52 * 2 powi e \<le> of_int (round_half_even (x / 2 powi e)) * 2 powi e"
    by (rule mult_right_mono) simp
  then show "2 powi (e + 52) \<le> fl64 x"
    by (simp add: f power_int_add mult.commute)
  have "real_of_int (round_half_even (x / 2 powi e)) \<le> of_int (2 ^ 53)"
    using h by (simp only: of_int_le_iff)
  then have "of_int (round_half_even (x / 2 powi e)) \<le> (2::real) ^ 53" by simp
  then have "of_int (round_half_even (x / 2 powi e)) * 2 powi e \<le> (2::real) ^ 53 * 2 powi e"
    by (rule mult_right_mono) simp
  then show "fl64 x \<le> 2 powi (e + 53)"
    by (simp add: f power_int_add mult.commute)
qed

lemma fl64_nonneg: "0 \<le> x \<Longrightarrow> 0 \<le> fl64 x"
proof (cases "x = 0")
  case True
  then show ?thesis by (simp add: fl64_def)
next
  case False
  assume "0 \<le> x"
  then have "0 < x" using False by simp
  then have "2 powi (\<lfloor>log 2 x\<rfloor> - 52 + 52) \<le> fl64 x" by (rule fl64_pos_range(2))
  moreover have "(0::real) < 2 powi (\<lfloor>log 2 x\<rfloor> - 52 + 52)" by simp
  ultimately show ?thesis by linarith
qed

lemma fl64_mono_pos:
  assumes "0 < x" "x \<le> y"
  shows "fl64 x \<le> fl64 y"
proof -
  define ex where "ex = \<lfloor>log 2 x\<rfloor> - 52"
  define ey where "ey = \<lfloor>log 2 y\<rfloor> - 52"
  have y: "0 < y" using assms by simp
  have "log 2 x \<le> log 2 y" using assms by simp
  then have le: "ex \<le> ey" unfolding ex_def ey_def by (simp add: floor_mono)
  show ?thesis
  proof (cases "ex = ey")
    case True
    have "x / 2 powi ey \<le> y / 2 powi ey"
      using assms(2) by (simp add: divide_right_mono)
    then have "round_half_even (x / 2 powi ey) \<le> round_half_even (y / 2 powi ey)"
      by (rule round_half_even_mono)
    then have "of_int (round_half_even (x / 2 powi ey)) * 2 powi ey
        \<le> of_int (round_half_even (y / 2 powi ey)) * (2::real) powi ey"
      by (intro mult_right_mono) simp_all
    then show ?thesis
      using fl64_pos_range(1) [OF assms(1)] fl64_pos_range(1) [OF y] True
      by (simp add: ex_def ey_def)
  next
    case False
    then have "ex + 53 \<le> ey + 52" using le by simp
    then have "(2::real) powi (ex + 53) \<le> 2 powi (ey + 52)"
      by (intro power_int_increasing) simp_all
    moreover have "fl64 x \<le> 2 powi (ex + 53)"
      unfolding ex_def using assms(1) by (rule fl64_pos_range(3))
    moreover have "2 powi (ey + 52) \<le> fl64 y"
      unfolding ey_def using y by (rule fl64_pos_range(2))
    ultimately show ?thesis by linarith
  qed
qed

lemma fl64_mono: "mono fl64"
proof (rule monoI)
  fix x y :: real
  assume xy: "x \<le> y"
  consider "0 < x" | "x \<le> 0" "0 \<le> y" | "y < 0" by linarith
  then show "fl64 x \<le> fl64 y"
  proof cases
    case 1
    then show ?thesis using xy by (rule fl64_mono_pos)
  next
    case 2
    have "0 \<le> fl64 (- x)" using 2(1) by (intro fl64_nonneg) simp
    then have "fl64 x \<le> 0" by (simp add: fl64_minus)
    moreover have "0 \<le> fl64 y" using 2(2) by (rule fl64_nonneg)
    ultimately show ?thesis by linarith
  next
    case 3
    have "fl64 (- y) \<le> fl64 (- x)" using 3 xy by (intro fl64_mono_pos) simp_all
    then show ?thesis by (simp add: fl64_minus)
  qed
qed

lemma fl64_zero: "fl64 0 = 0"
  by (simp add: fl64_def)

lemma fl64_scale: "fl64 (x * 2 powi j) = fl64 x * 2 powi j"
proof (cases "x = 0")
  case True
  then show ?thesis by (simp add: fl64_def)
next
  case False
  have p: "(2::real) powr real_of_int j = 2 powi j"
    by (rule powr_real_of_int') simp_all
  have "log 2 (\<bar>x\<bar> * 2 powi j) = log 2 \<bar>x\<bar> + log 2 (2 powi j)"
    using False by (simp add: log_mult)
  also have "log 2 ((2::real) powi j) = real_of_int j"
    unfolding p [symmetric] by simp
  finally have "\<lfloor>log 2 \<bar>x * 2 powi j\<bar>\<rfloor> = \<lfloor>log 2 \<bar>x\<bar>\<rfloor> + j"
    by (simp add: abs_mult)
  then have e: "\<lfloor>log 2 \<bar>x * 2 powi j\<bar>\<rfloor> - 52 = (\<lfloor>log 2 \<bar>x\<bar>\<rfloor> - 52) + j"
    by simp
  have q: "x * 2 powi j / 2 powi (e + j) = x / 2 powi e" for e
    by (simp add: power_int_add)
  show ?thesis
    using False unfolding fl64_def Let_def e q
    by (simp add: power_int_add)
qed

lemma fl64_of_int:
  assumes "\<bar>k\<bar> \<le> 2 ^ 53"
  shows "fl64 (of_int k) = of_int k"
proof (cases "k = 0")
  case True
  then show ?thesis by (simp add: fl64_def)
next
  case False
  define e where "e = \<lfloor>log 2 \<bar>real_of_int k\<bar>\<rfloor> - 52"
  have pos: "1 \<le> \<bar>real_of_int k\<bar>" using False by (simp flip: of_int_abs)
  have "log 2 \<bar>real_of_int k\<bar> \<le> 53"
  proof -
    have "\<bar>real_of_int k\<bar> \<le> 2 ^ 53" using assms by (simp flip: of_int_abs)
    then have "\<bar>real_of_int k\<bar> \<le> 2 powr 53" by simp
    then show ?thesis using pos by (subst log_le_iff) simp_all
  qed
  then have e: "e \<le> 1" unfolding e_def by linarith
  show ?thesis
  proof (cases "e = 1")
    case True
    have "log 2 \<bar>real_of_int k\<bar> < 54" using \<open>log 2 \<bar>real_of_int k\<bar> \<le> 53\<close> by simp
    have "53 \<le> log 2 \<bar>real_of_int k\<bar>" using True unfolding e_def by linarith
    then have "2 powr 53 \<le> \<bar>real_of_int k\<bar>"
      using pos by (subst (asm) le_log_iff) simp_all
    then have "\<bar>real_of_int k\<bar> = 2 ^ 53" using assms by (simp flip: of_int_abs)
    then have k: "real_of_int k = 2 ^ 53 \<or> real_of_int k = - (2 ^ 53)" by linarith
    have "fl64 (2 ^ 53) = 2 ^ 53"
      using fl64_scale [of 1 53] by (simp add: fl64_def round_half_even_def)
    moreover have "fl64 (- (2 ^ 53)) = - (2 ^ 53)"
      using fl64_scale [of "-1" 53] by (simp add: fl64_def round_half_even_def)
    ultimately show ?thesis using k by auto
  next
    case ne: False
    then have e0: "e \<le> 0" using e by simp
    define n where "n = nat (- e)"
    have "e = - int n" using e0 by (simp add: n_def)
    then have p: "(2::real) powi e = 1 / 2 ^ n"
      by (simp only: power_int_minus power_int_of_nat inverse_eq_divide)
    have "real_of_int k / 2 powi e = of_int (k * 2 ^ n)" by (simp add: p)
    then have "round_half_even (real_of_int k / 2 powi e) = k * 2 ^ n"
      by (simp only: round_half_even_of_int)
    then have "of_int (round_half_even (real_of_int k / 2 powi e)) * 2 powi e = real_of_int k"
      by (simp add: p)
    then show ?thesis using False by (simp add: fl64_def Let_def e_def)
  qed
qed

lemma fl64_numeral: "numeral w \<le> (2::int) ^ 53 \<Longrightarrow> fl64 (numeral w) = numeral w"
  using fl64_of_int [of "numeral w"] by simp

lemma fl64_neg_numeral:
  "numeral w \<le> (2::int) ^ 53 \<Longrightarrow> fl64 (- numeral w) = - numeral w"
  by (simp only: fl64_minus fl64_numeral)

lemma fl64_one: "fl64 1 = 1"
  using fl64_of_int [of 1] by simp

lemma fl64_dyadic:
  assumes "\<bar>k\<bar> \<le> 2 ^ 53"
  shows "fl64 (of_int k * 2 powi j) = of_int k * 2 powi j"
  by (simp only: fl64_scale fl64_of_int [OF assms])

lemma fl64_half: "fl64 (1 / 2) = 1 / 2"
  using fl64_dyadic [of 1 "-1"] by (simp add: power_int_minus)

lemma fl64_abs_le:
  assumes "\<bar>x\<bar> \<le> of_int k" "\<bar>k\<bar> \<le> 2 ^ 53"
  shows "\<bar>fl64 x\<bar> \<le> of_int k"
proof -
  have m: "a \<le> b \<Longrightarrow> fl64 a \<le> fl64 b" for a b
    using fl64_mono by (simp add: mono_def)
  have "fl64 x \<le> fl64 (of_int k)" using assms(1) by (intro m) simp
  moreover have "fl64 (- of_int k) \<le> fl64 x" using assms(1) by (intro m) simp
  ultimately show ?thesis
    by (simp add: fl64_minus fl64_of_int [OF assms(2)])
qed

lemma fl64_ge:
  assumes "of_int k \<le> x" "\<bar>k\<bar> \<le> 2 ^ 53"
  shows "of_int k \<le> fl64 x"
proof -
  have "fl64 (of_int k) \<le> fl64 x"
    using fl64_mono assms(1) by (simp add: mono_def)
  then show ?thesis by (simp add: fl64_of_int [OF assms(2)])
qed

lemma fl64_idem: "fl64 (fl64 x) = fl64 x"
proof -
  have pos: "fl64 (fl64 y) = fl64 y" if "0 < y" for y
  proof -
    define e where "e = \<lfloor>log 2 y\<rfloor> - 52"
    define m where "m = round_half_even (y / 2 powi e)"
    have p: "(0::real) < 2 powi e" by simp
    have f: "fl64 y = of_int m * 2 powi e"
      using fl64_pos_range(1) [OF that] by (simp add: m_def e_def)
    have "2 powi (e + 52) \<le> fl64 y" "fl64 y \<le> 2 powi (e + 53)"
      using fl64_pos_range(2,3) [OF that] by (simp_all add: e_def)
    then have "(2::real) ^ 52 * 2 powi e \<le> of_int m * 2 powi e"
        "real_of_int m * 2 powi e \<le> 2 ^ 53 * 2 powi e"
      unfolding f by (simp_all add: power_int_add mult.commute)
    then have "(2::real) ^ 52 \<le> of_int m" "real_of_int m \<le> 2 ^ 53"
      using p by simp_all
    then have "real_of_int (2 ^ 52) \<le> of_int m" "real_of_int m \<le> of_int (2 ^ 53)"
      by simp_all
    then have "2 ^ 52 \<le> m" "m \<le> 2 ^ 53"
      by (simp_all only: of_int_le_iff)
    then have "\<bar>m\<bar> \<le> 2 ^ 53" by simp
    then show ?thesis unfolding f by (rule fl64_dyadic)
  qed
  consider "0 < x" | "x = 0" | "0 < - x" by linarith
  then show ?thesis
  proof cases
    case 1
    then show ?thesis by (rule pos)
  next
    case 2
    then show ?thesis by (simp add: fl64_zero)
  next
    case 3
    then have "fl64 (fl64 (- x)) = fl64 (- x)" by (rule pos)
    then show ?thesis by (simp add: fl64_minus)
  qed
qed

lemma fl64_mantissa:
  assumes "0 < a" "fl64 a = a"
  shows "\<exists>m::int. a = of_int m * 2 powi (\<lfloor>log 2 a\<rfloor> - 52) \<and> 2 ^ 52 \<le> m \<and> m < 2 ^ 53"
proof -
  define e where "e = \<lfloor>log 2 a\<rfloor> - 52"
  define m where "m = round_half_even (a / 2 powi e)"
  have p: "(0::real) < 2 powi e" by simp
  have a: "a = of_int m * 2 powi e"
    using fl64_pos_range(1) [OF assms(1)] assms(2) by (simp add: m_def e_def)
  have "2 powi (e + 52) \<le> a" "a < 2 powi (e + 52 + 1)"
    using log2_binade [OF assms(1)] by (simp_all add: e_def)
  then have "(2::real) ^ 52 * 2 powi e \<le> of_int m * 2 powi e"
      "real_of_int m * 2 powi e < 2 ^ 53 * 2 powi e"
    unfolding a [symmetric] by (simp_all add: power_int_add mult.commute)
  then have "(2::real) ^ 52 \<le> of_int m" "real_of_int m < 2 ^ 53"
    using p by simp_all
  then have "real_of_int (2 ^ 52) \<le> of_int m" "real_of_int m < of_int (2 ^ 53)"
    by simp_all
  then have "2 ^ 52 \<le> m" "m < 2 ^ 53"
    by (simp_all only: of_int_le_iff of_int_less_iff)
  then show ?thesis using a unfolding e_def by blast
qed

lemma double_gap:
  assumes "0 < a" "a < b" "fl64 a = a" "fl64 b = b"
  shows "a * (1 + 1 / 2 ^ 53) < b"
proof -
  define ea where "ea = \<lfloor>log 2 a\<rfloor> - 52"
  define eb where "eb = \<lfloor>log 2 b\<rfloor> - 52"
  have b0: "0 < b" using assms(1,2) by simp
  obtain m :: int where m: "a = of_int m * 2 powi ea" "2 ^ 52 \<le> m" "m < 2 ^ 53"
    using fl64_mantissa [OF assms(1,3)] unfolding ea_def by blast
  obtain m' :: int where m': "b = of_int m' * 2 powi eb" "2 ^ 52 \<le> m'" "m' < 2 ^ 53"
    using fl64_mantissa [OF b0 assms(4)] unfolding eb_def by blast
  have "log 2 a \<le> log 2 b" using assms(1,2) by simp
  then have le: "ea \<le> eb" unfolding ea_def eb_def by (simp add: floor_mono)
  have p: "(0::real) < 2 powi ea" by simp
  have gap: "a + 2 powi ea \<le> b"
  proof (cases "ea = eb")
    case True
    have "real_of_int m * 2 powi ea < of_int m' * 2 powi ea"
      using assms(2) m(1) m'(1) True by simp
    then have "real_of_int m < of_int m'" using p by simp
    then have "m + 1 \<le> m'" by linarith
    then have "real_of_int (m + 1) \<le> of_int m'" by (simp only: of_int_le_iff)
    then have "real_of_int (m + 1) * 2 powi ea \<le> of_int m' * 2 powi ea"
      by (rule mult_right_mono) simp
    then show ?thesis using m(1) m'(1) True by (simp add: algebra_simps)
  next
    case False
    then have "ea + 53 \<le> eb + 52" using le by simp
    then have "(2::real) powi (ea + 53) \<le> 2 powi (eb + 52)"
      by (intro power_int_increasing) simp_all
    moreover have "2 powi (eb + 52) \<le> b"
    proof -
      have "real_of_int (2 ^ 52) \<le> of_int m'" using m'(2) by (simp only: of_int_le_iff)
      then have "(2::real) ^ 52 * 2 powi eb \<le> of_int m' * 2 powi eb"
        by (intro mult_right_mono) simp_all
      then show ?thesis using m'(1) by (simp add: power_int_add mult.commute)
    qed
    moreover have "a + 2 powi ea \<le> 2 powi (ea + 53)"
    proof -
      have "m + 1 \<le> 2 ^ 53" using m(3) by simp
      then have "real_of_int (m + 1) \<le> of_int (2 ^ 53)" by (simp only: of_int_le_iff)
      then have "real_of_int (m + 1) * 2 powi ea \<le> (2::real) ^ 53 * 2 powi ea"
        by (intro mult_right_mono) simp_all
      then show ?thesis using m(1) by (simp add: power_int_add algebra_simps)
    qed
    ultimately show ?thesis by linarith
  qed
  have "real_of_int m < 2 ^ 53" using m(3) by (metis of_int_less_iff of_int_numeral of_int_power)
  then have "real_of_int m * 2 powi ea < 2 ^ 53 * 2 powi ea" using p by simp
  then have "a / 2 ^ 53 < 2 powi ea" using m(1) by (simp add: field_simps)
  then have "a * (1 + 1 / 2 ^ 53) < a + 2 powi ea" by (simp add: algebra_simps)
  then show ?thesis using gap by linarith
qed

lemma round_half_even_above:
  assumes "of_int k + 1 / 2 < x"
  shows "k + 1 \<le> round_half_even x"
proof (cases "\<lfloor>x\<rfloor> = k")
  case True
  then have "1 / 2 < x - of_int \<lfloor>x\<rfloor>" using assms by simp
  then show ?thesis unfolding round_half_even_def Let_def using True by simp
next
  case False
  have "k \<le> \<lfloor>x\<rfloor>" using assms by (simp add: le_floor_iff)
  then have "k + 1 \<le> \<lfloor>x\<rfloor>" using False by simp
  then show ?thesis using round_half_even_bounds(1) [of x] by linarith
qed

lemma fl64_above_one:
  assumes "1 + 1 / 2 ^ 53 < x"
  shows "1 < fl64 x"
proof (cases "x < 2")
  case True
  have x1: "1 \<le> x" using assms by (smt (verit) divide_nonneg_nonneg zero_le_numeral zero_le_power)
  have "2 ^ 52 \<le> \<bar>x\<bar> / 2 powi (- 52)" "\<bar>x\<bar> / 2 powi (- 52) < 2 ^ 53"
    using True x1 by (simp_all add: power_int_minus field_simps)
  then have f: "fl64 x = of_int (round_half_even (x / 2 powi (- 52))) * 2 powi (- 52)"
    by (rule fl64_in_binade)
  have "of_int (2 ^ 52) + 1 / 2 < x / 2 powi (- 52)"
    using assms by (simp add: power_int_minus field_simps)
  then have "2 ^ 52 + 1 \<le> round_half_even (x / 2 powi (- 52))"
    by (rule round_half_even_above)
  then have "real_of_int (2 ^ 52 + 1) \<le> of_int (round_half_even (x / 2 powi (- 52)))"
    by (simp only: of_int_le_iff)
  then have "real_of_int (2 ^ 52 + 1) * 2 powi (- 52)
      \<le> of_int (round_half_even (x / 2 powi (- 52))) * (2::real) powi (- 52)"
    by (intro mult_right_mono) simp_all
  then show ?thesis unfolding f by (simp add: power_int_minus field_simps)
next
  case False
  then have "fl64 2 \<le> fl64 x" using fl64_mono by (simp add: mono_def)
  then show ?thesis using fl64_numeral [of "num.Bit0 num.One"] by simp
qed

lemma fl64_ratio_above_one:
  assumes "0 < a" "a < b" "fl64 a = a" "fl64 b = b"
  shows "1 < fl64 (b / a)"
proof -
  have "a * (1 + 1 / 2 ^ 53) < b" using assms by (rule double_gap)
  then have "1 + 1 / 2 ^ 53 < b / a" using assms(1) by (simp add: pos_less_divide_eq mult.commute)
  then show ?thesis by (rule fl64_above_one)
qed

lemma fl64_ratio_below_one:
  assumes "0 \<le> a" "a < b"
  shows "fl64 (a / b) \<le> 1"
proof -
  have "a / b \<le> 1" using assms by simp
  then have "fl64 (a / b) \<le> fl64 1" using fl64_mono by (simp add: mono_def)
  then show ?thesis by (simp add: fl64_one)
qed

section \<open>Properties of the statistics\<close>

lemma foldl_min_Min: "foldl min (x::real) xs = Min (set (x # xs))"
proof -
  have "(\<lambda>a s. min s a) = (min :: real \<Rightarrow> real \<Rightarrow> real)"
    by (intro ext) (rule min.commute)
  then show ?thesis
    by (simp add: foldl_conv_fold Min.set_eq_fold del: set_simps)
qed

lemma foldl_max_Max: "foldl max (x::real) xs = Max (set (x # xs))"
proof -
  have "(\<lambda>a s. max s a) = (max :: real \<Rightarrow> real \<Rightarrow> real)"
    by (intro ext) (rule max.commute)
  then show ?thesis
    by (simp add: foldl_conv_fold Max.set_eq_fold del: set_simps)
qed

lemma math_min_Min: "values \<noteq> [] \<Longrightarrow> math_min values = Min (set values)"
  by (cases "values") (simp_all add: math_min_def foldl_min_Min del: foldl_Cons)

lemma math_max_Max: "values \<noteq> [] \<Longrightarrow> math_max values = Max (set values)"
  by (cases "values") (simp_all add: math_max_def foldl_max_Max del: foldl_Cons)

lemma upper_median_in_set:
  "values \<noteq> [] \<Longrightarrow> sort values ! (length (sort values) div 2) \<in> set (values :: real list)"
proof -
  assume "values \<noteq> []"
  then have "length (sort values) div 2 < length (sort values)" by simp
  then have "sort values ! (length (sort values) div 2) \<in> set (sort values)"
    by (rule nth_mem)
  then show ?thesis by simp
qed

lemma reduce_sum_exact_acc:
  "foldl (\<lambda>sum val. exact (sum + val)) a values = a + sum_list values"
  by (induction "values" arbitrary: a) (simp_all add: exact_def)

lemma reduce_sum_exact: "reduce_sum exact values = sum_list values"
  by (simp add: reduce_sum_def reduce_sum_exact_acc)

lemma sum_list_lower:
  "\<forall>x \<in> set values. a \<le> x \<Longrightarrow> a * real (length values) \<le> sum_list (values :: real list)"
  by (induction "values") (auto simp: algebra_simps)

lemma sum_list_upper:
  "\<forall>x \<in> set values. x \<le> a \<Longrightarrow> sum_list (values :: real list) \<le> a * real (length values)"
  by (induction "values") (auto simp: algebra_simps)

lemma sum_list_ge_Min:
  "values \<noteq> [] \<Longrightarrow> Min (set values) * real (length values) \<le> sum_list (values :: real list)"
  by (rule sum_list_lower) simp

lemma sum_list_le_Max:
  "values \<noteq> [] \<Longrightarrow> sum_list (values :: real list) \<le> Max (set values) * real (length values)"
  by (rule sum_list_upper) simp

text \<open>
  Claim C8, as amended. For every non-empty list of samples \<^verbatim>\<open>calculateStats\<close> returns a
  summary with \<open>min \<le> median \<le> max\<close>, whatever the rounding; and \<open>min \<le> mean \<le> max\<close>
  holds when the sum and the division that give the mean are exact.
\<close>

theorem calculateStats_bounds:
  assumes "values \<noteq> []"
  shows "(\<exists>s. calculateStats rnd values = Inr s
            \<and> min_value s \<le> median s \<and> median s \<le> max_value s)
       \<and> (\<exists>s. calculateStats exact values = Inr s
            \<and> min_value s \<le> mean s \<and> mean s \<le> max_value s)"
proof -
  have n: "0 < real (length values)" using assms by simp
  have med: "sort values ! (length (sort values) div 2) \<in> set values"
    using assms by (rule upper_median_in_set)
  have "Min (set values) \<le> sort values ! (length (sort values) div 2)"
    using med by simp
  moreover have "sort values ! (length (sort values) div 2) \<le> Max (set values)"
    using med by simp
  moreover have "Min (set values) \<le> sum_list values / real (length values)"
    using sum_list_ge_Min [OF assms] n by (simp add: pos_le_divide_eq)
  moreover have "sum_list values / real (length values) \<le> Max (set values)"
    using sum_list_le_Max [OF assms] n by (simp add: pos_divide_le_eq)
  ultimately show ?thesis
    using assms
    by (simp add: calculateStats_def Let_def math_min_Min math_max_Max reduce_sum_exact)
       (simp add: exact_def)
qed

theorem calculateStats_bounds_witness:
  "[1, 2, 4 :: real] \<noteq> []
   \<and> (\<exists>s. calculateStats exact [1, 2, 4] = Inr s
         \<and> min_value s \<le> median s \<and> median s \<le> max_value s
         \<and> min_value s \<le> mean s \<and> mean s \<le> max_value s
         \<and> min_value s = 1 \<and> median s = 2 \<and> max_value s = 4 \<and> mean s = 7 / 3)"
  using calculateStats_bounds [of "[1, 2, 4]" exact]
  by (simp add: calculateStats_def Let_def math_min_def math_max_def reduce_sum_def exact_def)

lemma fl64_d01: "fl64 d01 = d01"
  using fl64_in_binade [of d01 "-56"]
  by (simp add: d01_def round_half_even_def power_int_minus)

lemma fl64_d02: "fl64 (d01 + d01) = 7205759403792794 / 2 ^ 55"
  using fl64_in_binade [of "d01 + d01" "-55"]
  by (simp add: d01_def round_half_even_def power_int_minus)

lemma fl64_d03: "fl64 (7205759403792794 / 2 ^ 55 + d01) = 5404319552844596 / 2 ^ 54"
  using fl64_in_binade [of "7205759403792794 / 2 ^ 55 + d01" "-54"]
  by (simp add: d01_def round_half_even_def power_int_minus)

lemma fl64_mean: "fl64 (5404319552844596 / 2 ^ 54 / 3) = 7205759403792795 / 2 ^ 56"
  using fl64_in_binade [of "5404319552844596 / 2 ^ 54 / 3" "-56"]
  by (simp add: round_half_even_def power_int_minus)

text \<open>
  Claim C8 as stated fails in double arithmetic. For the three samples \<open>0.1, 0.1, 0.1\<close>
  the running sum rounds to \<open>0.30000000000000004\<close> and the mean to
  \<open>0.10000000000000002\<close>, which is above the maximum \<open>0.1\<close>.
\<close>

theorem calculateStats_mean_above_max:
  "calculateStats fl64 [d01, d01, d01] \<noteq> Inl EmptyStatsError
   \<and> max_value (projr (calculateStats fl64 [d01, d01, d01]))
       < mean (projr (calculateStats fl64 [d01, d01, d01]))"
proof -
  have s: "reduce_sum fl64 [d01, d01, d01] = 5404319552844596 / 2 ^ 54"
    by (simp only: reduce_sum_def foldl.simps add_0 fl64_d01 fl64_d02 fl64_d03)
  have m: "mean (projr (calculateStats fl64 [d01, d01, d01])) = 7205759403792795 / 2 ^ 56"
    using fl64_mean by (simp add: calculateStats_def Let_def s)
  have x: "max_value (projr (calculateStats fl64 [d01, d01, d01])) = d01"
    by (simp add: calculateStats_def Let_def math_max_def)
  have "calculateStats fl64 [d01, d01, d01] \<noteq> Inl EmptyStatsError"
    by (simp add: calculateStats_def Let_def)
  then show ?thesis
    unfolding m x by (simp add: d01_def)
qed

lemma detect_mad_sample:
  assumes "rnd 0 = 0"
  shows "detect_mad rnd sample_C1 = 0"
proof -
  have "detect_median sample_C1 = 10"
    by (simp add: detect_median_def sample_C1_def)
  then have "absoluteDeviations rnd sample_C1 = [0, 0, 0, 0, 0, \<bar>rnd 90\<bar>]"
    using assms by (simp add: absoluteDeviations_def sample_C1_def)
  then show ?thesis by (simp add: detect_mad_def)
qed

lemma classify_all_clean:
  "\<forall>v \<in> set values. z v \<le> 3.5 \<Longrightarrow>
   classify z values = \<lparr>cleanValues = values, outliers = \<lparr>mild = [], extreme = []\<rparr>\<rparr>"
  by (induction "values") (auto simp: Let_def)

text \<open>
  Claim C1, as amended. On the sample list \<open>[10, 10, 10, 10, 10, 100]\<close> the median is
  \<open>10\<close> and the median absolute deviation is \<open>0\<close>, so every modified z-score is
  \<open>0\<close>: \<^verbatim>\<open>detectOutliers\<close> returns the whole list as clean, with both outlier
  buckets empty, and the mean of the clean set is \<open>25\<close>.
\<close>

theorem detectOutliers_sample_all_clean:
  assumes "rnd 0 = 0"
  shows "detect_mad rnd sample_C1 = 0
       \<and> detectOutliers rnd sample_C1 =
           \<lparr>cleanValues = sample_C1, outliers = \<lparr>mild = [], extreme = []\<rparr>\<rparr>
       \<and> mean (projr (calculateEnhancedStats exact sample_C1)) = 25"
proof -
  have mad: "detect_mad rnd sample_C1 = 0" using assms by (rule detect_mad_sample)
  have "classify (modifiedZScore rnd (detect_median sample_C1) (detect_mad rnd sample_C1)) sample_C1
        = \<lparr>cleanValues = sample_C1, outliers = \<lparr>mild = [], extreme = []\<rparr>\<rparr>"
    by (rule classify_all_clean) (simp add: mad modifiedZScore_def)
  then have d: "detectOutliers rnd sample_C1 =
      \<lparr>cleanValues = sample_C1, outliers = \<lparr>mild = [], extreme = []\<rparr>\<rparr>"
    by (simp add: detectOutliers_def revertIfTooManyRemoved_def sample_C1_def)
  have "exact 0 = 0" by (simp add: exact_def)
  then have "classify (modifiedZScore exact (detect_median sample_C1) (detect_mad exact sample_C1)) sample_C1
        = \<lparr>cleanValues = sample_C1, outliers = \<lparr>mild = [], extreme = []\<rparr>\<rparr>"
    by (intro classify_all_clean) (simp add: detect_mad_sample modifiedZScore_def)
  then have "cleanValues (detectOutliers exact sample_C1) = sample_C1"
    by (simp add: detectOutliers_def revertIfTooManyRemoved_def sample_C1_def)
  then have "mean (projr (calculateEnhancedStats exact sample_C1)) = 25"
    by (simp add: calculateEnhancedStats_def Let_def reduce_sum_exact)
       (simp add: sample_C1_def exact_def)
  with mad d show ?thesis by simp
qed

theorem detectOutliers_sample_all_clean_witness:
  "fl64 0 = 0
   \<and> detect_mad fl64 sample_C1 = 0
   \<and> detectOutliers fl64 sample_C1 =
       \<lparr>cleanValues = sample_C1, outliers = \<lparr>mild = [], extreme = []\<rparr>\<rparr>
   \<and> mean (projr (calculateEnhancedStats exact sample_C1)) = 25"
  using detectOutliers_sample_all_clean [of fl64] by (simp add: fl64_zero)

text \<open>
  Claim C1 as stated fails: \<open>100\<close> is in neither outlier bucket and the mean of the
  clean set is \<open>25\<close>, not \<open>10\<close>.
\<close>

theorem detectOutliers_sample_keeps_100:
  "100 \<notin> set (extreme (outliers (detectOutliers fl64 sample_C1)))
   \<and> 100 \<notin> set (mild (outliers (detectOutliers fl64 sample_C1)))
   \<and> mean (projr (calculateEnhancedStats fl64 sample_C1)) = 25"
proof -
  have "classify (modifiedZScore fl64 (detect_median sample_C1) (detect_mad fl64 sample_C1)) sample_C1
        = \<lparr>cleanValues = sample_C1, outliers = \<lparr>mild = [], extreme = []\<rparr>\<rparr>"
    by (rule classify_all_clean) (simp add: detect_mad_sample fl64_zero modifiedZScore_def)
  then have d: "detectOutliers fl64 sample_C1 =
      \<lparr>cleanValues = sample_C1, outliers = \<lparr>mild = [], extreme = []\<rparr>\<rparr>"
    by (simp add: detectOutliers_def revertIfTooManyRemoved_def sample_C1_def)
  have "reduce_sum fl64 sample_C1 = 150"
    by (simp add: reduce_sum_def sample_C1_def fl64_numeral)
  then have "mean (projr (calculateEnhancedStats fl64 sample_C1)) = 25"
    by (simp add: calculateEnhancedStats_def Let_def d)
       (simp add: sample_C1_def fl64_numeral)
  then show ?thesis by (simp add: d)
qed

text \<open>
  Claim C4. For every input list the clean set that \<^verbatim>\<open>detectOutliers\<close> returns holds at
  least half of the input values; and whenever the classification leaves a clean set
  smaller than half of the input, the input itself is returned as the clean set, with
  both outlier buckets empty.
\<close>

theorem detectOutliers_keeps_half:
  "length values \<le> 2 * length (cleanValues (detectOutliers rnd values))
   \<and> (real (length (cleanValues r)) < real (length values) * 0.5 \<longrightarrow>
        revertIfTooManyRemoved values r =
          \<lparr>cleanValues = values, outliers = \<lparr>mild = [], extreme = []\<rparr>\<rparr>)"
  by (simp add: detectOutliers_def revertIfTooManyRemoved_def)

theorem detectOutliers_keeps_half_witness:
  "real (length (cleanValues \<lparr>cleanValues = [1], outliers = \<lparr>mild = [2], extreme = [3, 4]\<rparr>\<rparr>))
     < real (length [1, 2, 3, 4 :: real]) * 0.5
   \<and> revertIfTooManyRemoved [1, 2, 3, 4]
         \<lparr>cleanValues = [1], outliers = \<lparr>mild = [2], extreme = [3, 4]\<rparr>\<rparr>
       = \<lparr>cleanValues = [1, 2, 3, 4], outliers = \<lparr>mild = [], extreme = []\<rparr>\<rparr>
   \<and> length [1, 2, 3, 4 :: real] \<le> 2 * length (cleanValues (detectOutliers exact [1, 2, 3, 4]))"
  using detectOutliers_keeps_half
    [of "[1, 2, 3, 4]" exact "\<lparr>cleanValues = [1], outliers = \<lparr>mild = [2], extreme = [3, 4]\<rparr>\<rparr>"]
  by simp

lemma calculateEnhancedStats_median:
  "values \<noteq> [] \<Longrightarrow>
   \<exists>s. calculateEnhancedStats rnd values = Inr s
     \<and> median s = sort (cleanValues (detectOutliers rnd values))
                    ! (length (cleanValues (detectOutliers rnd values)) div 2)"
  by (simp add: calculateEnhancedStats_def Let_def)

lemma fl64_literal_bounds: "1 / 2 \<le> fl64 0.6745" "fl64 0.6745 \<le> 1"
proof -
  have m: "a \<le> b \<Longrightarrow> fl64 a \<le> fl64 b" for a b
    using fl64_mono by (simp add: mono_def)
  have "fl64 (1 / 2) \<le> fl64 0.6745" by (rule m) simp
  then show "1 / 2 \<le> fl64 0.6745" by (simp only: fl64_half)
  have "fl64 0.6745 \<le> fl64 1" by (rule m) simp
  then show "fl64 0.6745 \<le> 1" by (simp only: fl64_one)
qed

lemma modifiedZScore_fl64_small:
  assumes "\<bar>fl64 (v - m)\<bar> \<le> 4"
  shows "modifiedZScore fl64 m 2 v \<le> 2"
proof -
  define t where "t = fl64 (v - m)"
  define c where "c = fl64 0.6745"
  have c: "0 \<le> c" "c \<le> 1" using fl64_literal_bounds by (simp_all add: c_def)
  have "\<bar>c * t\<bar> = c * \<bar>t\<bar>" using c by (simp add: abs_mult)
  also have "\<dots> \<le> 1 * 4" using c assms unfolding t_def [symmetric] by (intro mult_mono) simp_all
  finally have "\<bar>c * t\<bar> \<le> of_int 4" by simp
  then have "\<bar>fl64 (c * t)\<bar> \<le> of_int 4" by (rule fl64_abs_le) simp
  then have "\<bar>fl64 (c * t) / 2\<bar> \<le> of_int 2" by simp
  then have "\<bar>fl64 (fl64 (c * t) / 2)\<bar> \<le> of_int 2" by (rule fl64_abs_le) simp
  then show ?thesis by (simp add: modifiedZScore_def c_def t_def)
qed

lemma modifiedZScore_fl64_large:
  assumes "996 \<le> fl64 (v - m)"
  shows "249 \<le> modifiedZScore fl64 m 2 v"
proof -
  define t where "t = fl64 (v - m)"
  define c where "c = fl64 0.6745"
  have c: "1 / 2 \<le> c" using fl64_literal_bounds by (simp add: c_def)
  have "1 / 2 * 996 \<le> c * t" using c assms unfolding t_def [symmetric] by (intro mult_mono) simp_all
  then have "of_int 498 \<le> c * t" by simp
  then have "of_int 498 \<le> fl64 (c * t)" by (rule fl64_ge) simp
  then have "of_int 249 \<le> fl64 (c * t) / 2" by simp
  then have "of_int 249 \<le> fl64 (fl64 (c * t) / 2)" by (rule fl64_ge) simp
  then show ?thesis by (simp add: modifiedZScore_def c_def t_def)
qed

lemma detectOutliers_sample_C10:
  "detectOutliers fl64 sample_C10 =
     \<lparr>cleanValues = [1, 2, 3, 4, 5], outliers = \<lparr>mild = [], extreme = [1000]\<rparr>\<rparr>"
proof -
  have med: "detect_median sample_C10 = 4"
    by (simp add: detect_median_def sample_C10_def)
  have dev: "absoluteDeviations fl64 sample_C10 = [3, 2, 1, 0, 1, 996]"
    by (simp add: absoluteDeviations_def med)
       (simp add: sample_C10_def fl64_numeral fl64_neg_numeral fl64_zero fl64_one fl64_minus)
  have mad: "detect_mad fl64 sample_C10 = 2"
    by (simp add: detect_mad_def dev)
  define z where "z = modifiedZScore fl64 4 2"
  have small: "z v \<le> 2" if "\<bar>fl64 (v - 4)\<bar> \<le> 4" for v
    unfolding z_def using that by (rule modifiedZScore_fl64_small)
  have "z 1 \<le> 2" "z 2 \<le> 2" "z 3 \<le> 2" "z 4 \<le> 2" "z 5 \<le> 2"
    by (rule small, simp add: fl64_numeral fl64_neg_numeral fl64_zero fl64_one fl64_minus)+
  moreover have "249 \<le> z 1000"
    unfolding z_def by (rule modifiedZScore_fl64_large) (simp add: fl64_numeral)
  ultimately have "classify z sample_C10 =
      \<lparr>cleanValues = [1, 2, 3, 4, 5], outliers = \<lparr>mild = [], extreme = [1000]\<rparr>\<rparr>"
    by (simp add: sample_C10_def Let_def)
  then show ?thesis
    by (simp add: detectOutliers_def med mad revertIfTooManyRemoved_def flip: z_def)
       (simp add: sample_C10_def)
qed

text \<open>
  Claim C10, as amended. For every non-empty input list of even length \<open>n\<close>, the median
  of \<^verbatim>\<open>calculateStats\<close> and the median inside \<^verbatim>\<open>detectOutliers\<close> are the element at
  index \<open>\<lfloor>n / 2\<rfloor>\<close> of the ascending-sorted input, and the MAD is the element at that
  index of the ascending-sorted absolute deviations: the upper of the two middle values,
  not their average. \<^verbatim>\<open>calculateEnhancedStats\<close> takes its median of the clean set that
  \<^verbatim>\<open>detectOutliers\<close> returns, at index \<open>\<lfloor>m / 2\<rfloor>\<close> of the sorted clean set of length
  \<open>m\<close>; that is the element at index \<open>\<lfloor>n / 2\<rfloor>\<close> of the sorted input when no value is
  removed as an outlier.
\<close>

theorem median_is_upper_middle:
  assumes "even (length values)" "values \<noteq> []"
  shows "(\<exists>s. calculateStats rnd values = Inr s
            \<and> median s = sort values ! (length values div 2))
       \<and> detect_median values = sort values ! (length values div 2)
       \<and> detect_mad rnd values = sort (absoluteDeviations rnd values) ! (length values div 2)
       \<and> (\<exists>s. calculateEnhancedStats rnd values = Inr s
            \<and> median s = sort (cleanValues (detectOutliers rnd values))
                           ! (length (cleanValues (detectOutliers rnd values)) div 2)
            \<and> (cleanValues (detectOutliers rnd values) = values \<longrightarrow>
                  median s = sort values ! (length values div 2)))
       \<and> sort values ! (length values div 2 - 1) \<le> sort values ! (length values div 2)"
proof -
  have "sort values ! (length values div 2 - 1) \<le> sort values ! (length values div 2)"
    using assms(2) by (intro sorted_nth_mono) simp_all
  then show ?thesis
    using assms(2) calculateEnhancedStats_median [OF assms(2), of rnd]
    by (auto simp: calculateStats_def Let_def detect_median_def detect_mad_def
        absoluteDeviations_def)
qed

theorem median_is_upper_middle_witness:
  "even (length [1, 2, 3, 4 :: real]) \<and> [1, 2, 3, 4 :: real] \<noteq> []
   \<and> cleanValues (detectOutliers exact [1, 2, 3, 4]) = [1, 2, 3, 4]
   \<and> median (projr (calculateStats exact [1, 2, 3, 4])) = 3
   \<and> detect_median [1, 2, 3, 4] = 3
   \<and> detect_mad exact [1, 2, 3, 4] = 1
   \<and> median (projr (calculateEnhancedStats exact [1, 2, 3, 4])) = 3
   \<and> median (projr (calculateStats exact [1, 2, 3, 4])) \<noteq> (2 + 3) / 2"
proof -
  have med: "detect_median [1, 2, 3, 4] = 3"
    by (simp add: detect_median_def)
  have mad: "detect_mad exact [1, 2, 3, 4] = 1"
    by (simp add: detect_mad_def absoluteDeviations_def med exact_def)
  have clean: "cleanValues (detectOutliers exact [1, 2, 3, 4]) = [1, 2, 3, 4]"
    by (simp add: detectOutliers_def revertIfTooManyRemoved_def med mad modifiedZScore_def
        exact_def Let_def)
  show ?thesis
    using median_is_upper_middle [of "[1, 2, 3, 4]" exact] clean med mad
    by auto
qed

text \<open>
  Claim C10 as stated fails for \<^verbatim>\<open>calculateEnhancedStats\<close>. Of the six values
  \<open>1, 2, 3, 4, 5, 1000\<close> the last is removed as an extreme outlier, and the median
  reported is the middle one of the five that remain, \<open>3\<close>: the lower of the two middle
  values of the input, whose element at index \<open>\<lfloor>6 / 2\<rfloor>\<close> is \<open>4\<close>.
\<close>

theorem calculateEnhancedStats_median_of_clean_set:
  "even (length sample_C10)
   \<and> cleanValues (detectOutliers fl64 sample_C10) = [1, 2, 3, 4, 5]
   \<and> median (projr (calculateEnhancedStats fl64 sample_C10)) = 3
   \<and> sort sample_C10 ! (length sample_C10 div 2) = 4
   \<and> sort sample_C10 ! (length sample_C10 div 2 - 1) = 3"
proof -
  have "median (projr (calculateEnhancedStats fl64 sample_C10)) = 3"
    by (simp add: calculateEnhancedStats_def Let_def detectOutliers_sample_C10)
       (simp add: sample_C10_def)
  then show ?thesis
    by (simp add: detectOutliers_sample_C10) (simp add: sample_C10_def)
qed

section \<open>Properties of the comparison\<close>

lemma percentFaster_nonneg:
  assumes "mono rnd" "rnd 0 = 0" "rnd 1 = 1"
    and "0 \<le> duration ra" "0 \<le> duration rb"
    and "duration ra \<noteq> 0 \<or> duration rb \<noteq> 0"
  shows "js_ge (percentFaster (comparison rnd nameA nameB ra rb)) (Fin 0)"
proof -
  define a where "a = duration ra"
  define b where "b = duration rb"
  have m: "\<And>x y. x \<le> y \<Longrightarrow> rnd x \<le> rnd y" using assms(1) by (simp add: mono_def)
  have nonneg: "\<And>x. 0 \<le> x \<Longrightarrow> 0 \<le> rnd x" using m [of 0] assms(2) by simp
  have ge1: "\<And>x. 1 \<le> x \<Longrightarrow> 1 \<le> rnd x" using m [of 1] assms(3) by simp
  have ab: "0 \<le> a" "0 \<le> b" "a \<noteq> 0 \<or> b \<noteq> 0" using assms(4-6) by (simp_all add: a_def b_def)
  show ?thesis
  proof (cases "b = 0")
    case True
    then have "0 < a" using ab by auto
    then show ?thesis using True
      by (simp add: comparison_def Let_def js_ge_def js_le_def js_gt_def js_sub_def js_inf_def
          flip: a_def b_def)
  next
    case False
    then have b: "0 < b" using ab by simp
    define t where "t = rnd (a / b)"
    have t0: "0 \<le> t" unfolding t_def using ab b by (intro nonneg) simp
    show ?thesis
    proof (cases "1 < t")
      case True
      then have "0 \<le> rnd (t - 1)" by (intro nonneg) simp
      then have "0 \<le> rnd (rnd (t - 1) * 100)" by (intro nonneg) simp
      then show ?thesis using True False
        by (simp add: comparison_def Let_def js_ge_def js_le_def js_gt_def js_sub_def
            flip: a_def b_def t_def)
    next
      case nt: False
      show ?thesis
      proof (cases "t = 0")
        case True
        then show ?thesis using False
          by (simp add: comparison_def Let_def js_ge_def js_le_def js_gt_def js_sub_def js_inf_def
              flip: a_def b_def t_def)
      next
        case tz: False
        then have "0 < t" using t0 by simp
        then have "1 \<le> 1 / t" using nt by simp
        then have "1 \<le> rnd (1 / t)" by (rule ge1)
        then have "0 \<le> rnd (rnd (1 / t) - 1)" by (intro nonneg) simp
        then have "0 \<le> rnd (rnd (rnd (1 / t) - 1) * 100)" by (intro nonneg) simp
        then show ?thesis using nt tz False
          by (simp add: comparison_def Let_def js_ge_def js_le_def js_gt_def js_sub_def
              flip: a_def b_def t_def)
      qed
    qed
  qed
qed

lemma faster_of_shorter:
  assumes "0 \<le> duration ra" "duration ra < duration rb"
      and "fl64 (duration ra) = duration ra" "fl64 (duration rb) = duration rb"
  shows "fasterName (comparison fl64 nameA nameB ra rb) = nameA"
    and "fasterName (comparison fl64 nameB nameA rb ra) = nameA"
proof -
  have b: "duration rb \<noteq> 0" using assms(1,2) by simp
  have "fl64 (duration ra / duration rb) \<le> 1"
    using assms(1,2) by (rule fl64_ratio_below_one)
  then show "fasterName (comparison fl64 nameA nameB ra rb) = nameA"
    using b by (simp add: comparison_def Let_def js_gt_def)
  show "fasterName (comparison fl64 nameB nameA rb ra) = nameA"
  proof (cases "duration ra = 0")
    case True
    then show ?thesis using assms(2)
      by (simp add: comparison_def Let_def js_gt_def js_inf_def)
  next
    case False
    then have "0 < duration ra" using assms(1) by simp
    then have "1 < fl64 (duration rb / duration ra)"
      using assms(2-4) by (rule fl64_ratio_above_one)
    then show ?thesis using False
      by (simp add: comparison_def Let_def js_gt_def)
  qed
qed

text \<open>
  Claim C9, as amended. \<open>fasterName\<close> is always one of the two names. For two results
  with non-negative durations that are not both zero, \<open>percentFaster \<ge> 0\<close>. And for two
  results whose durations are non-negative doubles that differ, the comparison with the
  inputs swapped names the same benchmark. The arithmetic is that of doubles.
\<close>

theorem comparison_properties:
  "fasterName (comparison rnd nameA nameB ra rb) \<in> {nameA, nameB}
   \<and> (0 \<le> duration ra \<and> 0 \<le> duration rb \<and> (duration ra \<noteq> 0 \<or> duration rb \<noteq> 0)
        \<longrightarrow> js_ge (percentFaster (comparison fl64 nameA nameB ra rb)) (Fin 0))
   \<and> (0 \<le> duration ra \<and> 0 \<le> duration rb
        \<and> fl64 (duration ra) = duration ra \<and> fl64 (duration rb) = duration rb
        \<and> duration ra \<noteq> duration rb
        \<longrightarrow> fasterName (comparison fl64 nameA nameB ra rb)
              = fasterName (comparison fl64 nameB nameA rb ra))"
proof (intro conjI impI)
  show "fasterName (comparison rnd nameA nameB ra rb) \<in> {nameA, nameB}"
    by (simp add: comparison_def Let_def)
next
  assume "0 \<le> duration ra \<and> 0 \<le> duration rb \<and> (duration ra \<noteq> 0 \<or> duration rb \<noteq> 0)"
  then show "js_ge (percentFaster (comparison fl64 nameA nameB ra rb)) (Fin 0)"
    by (intro percentFaster_nonneg fl64_mono fl64_zero fl64_one) simp_all
next
  assume a: "0 \<le> duration ra \<and> 0 \<le> duration rb
        \<and> fl64 (duration ra) = duration ra \<and> fl64 (duration rb) = duration rb
        \<and> duration ra \<noteq> duration rb"
  show "fasterName (comparison fl64 nameA nameB ra rb)
              = fasterName (comparison fl64 nameB nameA rb ra)"
  proof (cases "duration ra < duration rb")
    case True
    then show ?thesis
      using a faster_of_shorter [where ra = ra and rb = rb and nameA = nameA and nameB = nameB]
      by simp
  next
    case False
    then have "duration rb < duration ra" using a by simp
    then show ?thesis
      using a faster_of_shorter [where ra = rb and rb = ra and nameA = nameB and nameB = nameA]
      by simp
  qed
qed

theorem comparison_properties_witness:
  "0 \<le> duration (report 10 1000) \<and> 0 \<le> duration (report 20 1000)
   \<and> fl64 (duration (report 10 1000)) = duration (report 10 1000)
   \<and> fl64 (duration (report 20 1000)) = duration (report 20 1000)
   \<and> js_ge (percentFaster (comparison fl64 ''A'' ''B'' (report 10 1000) (report 20 1000))) (Fin 0)
   \<and> percentFaster (comparison fl64 ''A'' ''B'' (report 10 1000) (report 20 1000)) = Fin 100
   \<and> fasterName (comparison fl64 ''A'' ''B'' (report 10 1000) (report 20 1000)) = ''A''
   \<and> fasterName (comparison fl64 ''B'' ''A'' (report 20 1000) (report 10 1000)) = ''A''"
  using comparison_properties [of fl64 "''A''" "''B''" "report 10 1000" "report 20 1000"]
  by (simp add: comparison_def Let_def report_def js_gt_def js_sub_def
      fl64_zero fl64_one fl64_half fl64_numeral)

text \<open>
  Claim C9 as stated fails. With equal durations each order names its own first
  argument, so swapping the inputs changes the benchmark named; and with both durations
  zero \<open>percentFaster\<close> is \<open>NaN\<close>, which is not \<open>\<ge> 0\<close>.
\<close>

theorem comparison_tie_and_zero:
  "fasterName (comparison fl64 ''A'' ''B'' (report 5 1000) (report 5 1000)) = ''A''
   \<and> fasterName (comparison fl64 ''B'' ''A'' (report 5 1000) (report 5 1000)) = ''B''
   \<and> percentFaster (comparison fl64 ''A'' ''B'' (report 0 1000) (report 0 1000)) = NaN
   \<and> \<not> js_ge (percentFaster (comparison fl64 ''A'' ''B'' (report 0 1000) (report 0 1000))) (Fin 0)"
  by (simp add: comparison_def Let_def report_def js_gt_def js_ge_def js_le_def js_sub_def
      js_inf_def fl64_one)

section \<open>Properties of the merge\<close>

lemma js_add_exact_commute: "js_add exact a b = js_add exact b a"
  by (cases a; cases b) (simp_all add: exact_def add.commute)

lemma js_add_exact_assoc: "js_add exact (js_add exact a b) c = js_add exact a (js_add exact b c)"
  by (cases a; cases b; cases c) (simp_all add: exact_def add.assoc)

lemma js_add_exact_swap:
  "js_add exact (js_add exact s a) b = js_add exact (js_add exact s b) a"
  by (metis js_add_exact_assoc js_add_exact_commute)

lemma js_add_NaN_right [simp]: "js_add rnd a NaN = NaN"
  by (cases a) simp_all

lemma accumulate_swap:
  "accumulate exact n (accumulate exact n c r) r' = accumulate exact n (accumulate exact n c r') r"
  by (simp add: accumulate_def js_add_exact_swap) (simp add: exact_def)

lemma foldl_accumulate_perm:
  assumes "mset rs' = mset rs"
  shows "foldl (accumulate exact n) c rs' = foldl (accumulate exact n) c rs"
proof -
  have "fold (\<lambda>r c. accumulate exact n c r) rs' = fold (\<lambda>r c. accumulate exact n c r) rs"
  proof (rule fold_multiset_equiv)
    show "mset rs' = mset rs" by (rule assms)
    show "(\<lambda>c. accumulate exact n c x) \<circ> (\<lambda>c. accumulate exact n c y)
        = (\<lambda>c. accumulate exact n c y) \<circ> (\<lambda>c. accumulate exact n c x)" for x y
      by (rule ext) (simp only: o_apply accumulate_swap [of n _ y x])
  qed
  then show ?thesis by (simp add: foldl_conv_fold)
qed

lemma reduce_plus_numbers:
  "reduce_plus rnd co (JNumber s) (map JNumber xs) = Inr (JNumber (foldl (js_add rnd) s xs))"
  by (induction xs arbitrary: s) simp_all

lemma numbers_are_JNumbers:
  "\<forall>v \<in> set vs. is_number v \<Longrightarrow>
   map JNumber (map (\<lambda>v. case v of JNumber x \<Rightarrow> x | _ \<Rightarrow> NaN) vs) = vs"
  by (induction vs) (auto split: jsval.splits)

lemma foldl_js_add_perm:
  assumes "mset xs' = mset xs"
  shows "foldl (js_add exact) s xs' = foldl (js_add exact) s xs"
proof -
  have "fold (\<lambda>x acc. js_add exact acc x) xs' = fold (\<lambda>x acc. js_add exact acc x) xs"
  proof (rule fold_multiset_equiv)
    show "mset xs' = mset xs" by (rule assms)
    show "(\<lambda>acc. js_add exact acc x) \<circ> (\<lambda>acc. js_add exact acc y)
        = (\<lambda>acc. js_add exact acc y) \<circ> (\<lambda>acc. js_add exact acc x)" for x y
      by (rule ext) (simp only: o_apply js_add_exact_swap [of _ y x])
  qed
  then show ?thesis by (simp add: foldl_conv_fold)
qed

lemma reduce_plus_perm:
  assumes "mset rs' = mset rs" "\<forall>r \<in> set rs. is_number (result r)"
  shows "\<exists>t. reduce_plus exact co (JNumber s) (map result rs) = Inr (JNumber t)
           \<and> reduce_plus exact co (JNumber s) (map result rs') = Inr (JNumber t)"
proof -
  define num :: "'a jsval \<Rightarrow> jsnum" where
    "num = (\<lambda>v. case v of JNumber x \<Rightarrow> x | _ \<Rightarrow> NaN)"
  have "set rs' = set rs" using assms(1) by (rule mset_eq_setD)
  then have all': "\<forall>v \<in> set (map result rs'). is_number v" using assms(2) by simp
  have all: "\<forall>v \<in> set (map result rs). is_number v" using assms(2) by simp
  have a: "map result rs = map JNumber (map num (map result rs))"
    unfolding num_def by (rule numbers_are_JNumbers [OF all, symmetric])
  have b: "map result rs' = map JNumber (map num (map result rs'))"
    unfolding num_def by (rule numbers_are_JNumbers [OF all', symmetric])
  have "mset (map num (map result rs')) = mset (map num (map result rs))"
    using assms(1) by (metis mset_map)
  then have "foldl (js_add exact) s (map num (map result rs'))
      = foldl (js_add exact) s (map num (map result rs))"
    by (rule foldl_js_add_perm)
  then show ?thesis
    by (subst a, subst b) (simp only: reduce_plus_numbers, simp)
qed

lemma accumulate_iterations:
  "accumulate rnd n (c\<lparr>iterations := i\<rparr>) r = (accumulate rnd n c r)\<lparr>iterations := i\<rparr>"
  by (simp add: accumulate_def)

lemma foldl_accumulate_iterations:
  "foldl (accumulate rnd n) (c\<lparr>iterations := i\<rparr>) rs = (foldl (accumulate rnd n) c rs)\<lparr>iterations := i\<rparr>"
  by (induction rs arbitrary: c) (simp_all add: accumulate_iterations)

lemma iterations_foldl_accumulate:
  "iterations (foldl (accumulate rnd n) c rs) = iterations c"
  by (induction rs arbitrary: c) (simp_all add: accumulate_def)

lemma combine_start_iterations: "combine_start i = (combine_start (Fin 0))\<lparr>iterations := i\<rparr>"
  by (simp add: combine_start_def)

lemma combineResults_many:
  assumes "2 \<le> length rs"
  shows "combineResults rnd co rs =
     (case result (hd rs) of
        JNumber x \<Rightarrow>
          (case reduce_plus rnd co (JNumber (Fin 0)) (map result rs) of
             Inl e \<Rightarrow> Inl e
           | Inr added \<Rightarrow>
               (case js_to_number co added of
                  Inl e \<Rightarrow> Inl e
                | Inr t \<Rightarrow>
                    Inr ((foldl (accumulate rnd (real (length rs))) (combine_start (Fin 0)) rs)
                         \<lparr>iterations := iterations (hd rs),
                           result := JNumber (js_div rnd t (Fin (real (length rs))))\<rparr>)))
      | v \<Rightarrow>
          Inr ((foldl (accumulate rnd (real (length rs))) (combine_start (Fin 0)) rs)
               \<lparr>iterations := iterations (hd rs), result := v\<rparr>))"
proof -
  have hd: "rs ! 0 = hd rs" using assms by (cases rs) simp_all
  have ne: "length rs \<noteq> 0" "length rs \<noteq> 1" using assms by auto
  have "foldl (accumulate rnd (real (length rs))) (combine_start (iterations (hd rs))) rs
      = (foldl (accumulate rnd (real (length rs))) (combine_start (Fin 0)) rs)
          \<lparr>iterations := iterations (hd rs)\<rparr>"
    by (subst combine_start_iterations) (rule foldl_accumulate_iterations)
  then show ?thesis using ne
    by (simp add: combineResults_def Let_def hd split: jsval.splits sum.splits)
qed

lemma combineResults_shape:
  assumes "2 \<le> length rs" "combineResults rnd co rs = Inr c"
  shows "\<exists>v. c = (foldl (accumulate rnd (real (length rs))) (combine_start (Fin 0)) rs)
                  \<lparr>iterations := iterations (hd rs), result := v\<rparr>"
  using assms(2) unfolding combineResults_many [OF assms(1)]
  by (auto split: jsval.splits sum.splits)

lemma combineResults_copied:
  assumes "2 \<le> length rs" "\<not> is_number (result (hd rs))"
  shows "combineResults rnd co rs =
     Inr ((foldl (accumulate rnd (real (length rs))) (combine_start (Fin 0)) rs)
          \<lparr>iterations := iterations (hd rs), result := result (hd rs)\<rparr>)"
  using assms(2) unfolding combineResults_many [OF assms(1)]
  by (cases "result (hd rs)") simp_all

lemma js_add_commute: "js_add rnd a b = js_add rnd b a"
  by (cases a; cases b) (simp_all add: add.commute)

lemma js_add_zero_half:
  "js_add fl64 (Fin 0) (js_div fl64 x (Fin 2)) = js_div fl64 x (Fin 2)"
  by (cases x) (simp_all add: fl64_idem js_inf_def)

lemma accumulate_two_swap:
  "accumulate fl64 2 (accumulate fl64 2 (combine_start i) a) b
     = accumulate fl64 2 (accumulate fl64 2 (combine_start i) b) a"
  by (simp add: accumulate_def combine_start_def fl64_idem js_add_zero_half add.commute
      js_add_commute [of fl64 "js_div fl64 (operationsPerSecond a) (Fin 2)"])

lemma permutation_of_two:
  assumes "mset rs' = mset [a, b]"
  shows "rs' = [a, b] \<or> rs' = [b, a]"
proof -
  have "length rs' = 2" using assms by (metis length_Cons list.size(3) mset_eq_length numeral_2_eq_2)
  then obtain x y where xy: "rs' = [x, y]"
    by (metis (no_types, opaque_lifting) One_nat_def Suc_1 length_0_conv length_Suc_conv)
  have "set rs' = set [a, b]" using assms by (rule mset_eq_setD)
  then have "{x, y} = {a, b}" by (simp add: xy)
  then show ?thesis unfolding xy by (auto simp: doubleton_eq_iff)
qed

lemma combineResults_two_doubles:
  assumes "mset rs' = mset rs" "length rs = 2"
      and "combineResults fl64 co rs = Inr d" "combineResults fl64 co rs' = Inr d'"
  shows "duration d' = duration d \<and> operationsPerSecond d' = operationsPerSecond d
       \<and> memoryDelta d' = memoryDelta d"
proof -
  obtain a b where rs: "rs = [a, b]"
    using assms(2)
    by (metis (no_types, opaque_lifting) One_nat_def Suc_1 length_0_conv length_Suc_conv)
  have two: "2 \<le> length rs" using assms(2) by simp
  have len: "length rs' = length rs" using assms(1) by (rule mset_eq_length)
  then have two': "2 \<le> length rs'" using two by simp
  have "rs' = [a, b] \<or> rs' = [b, a]"
    using assms(1) unfolding rs by (rule permutation_of_two)
  then have "foldl (accumulate fl64 (real (length rs'))) (combine_start (Fin 0)) rs'
      = foldl (accumulate fl64 (real (length rs))) (combine_start (Fin 0)) rs"
    unfolding rs by (auto simp: accumulate_two_swap [of _ a b])
  then show ?thesis
    using combineResults_shape [OF two assms(3)] combineResults_shape [OF two' assms(4)]
    by auto
qed

lemma combineResults_exact_fields:
  assumes "mset rs' = mset rs" "rs \<noteq> []"
      and "combineResults exact co rs = Inr c" "combineResults exact co rs' = Inr c'"
  shows "duration c' = duration c \<and> operationsPerSecond c' = operationsPerSecond c
       \<and> memoryDelta c' = memoryDelta c
       \<and> iterations c = iterations (hd rs) \<and> iterations c' = iterations (hd rs')"
proof -
  have len: "length rs' = length rs" using assms(1) by (rule mset_eq_length)
  show ?thesis
  proof (cases "length rs = 1")
    case True
    then obtain r where r: "rs = [r]" by (cases rs) simp_all
    then have "rs' = [r]" using assms(1) by simp
    then show ?thesis using r assms(3,4) by (simp add: combineResults_def)
  next
    case False
    moreover have "length rs \<noteq> 0" using assms(2) by simp
    ultimately have two: "2 \<le> length rs" by linarith
    then have two': "2 \<le> length rs'" using len by simp
    have "foldl (accumulate exact (real (length rs'))) (combine_start (Fin 0)) rs'
        = foldl (accumulate exact (real (length rs))) (combine_start (Fin 0)) rs"
      unfolding len by (rule foldl_accumulate_perm) (rule assms(1))
    then show ?thesis
      using combineResults_shape [OF two assms(3)] combineResults_shape [OF two' assms(4)]
      by auto
  qed
qed

lemma combineResults_exact_equal:
  assumes "mset rs' = mset rs" "rs \<noteq> []"
      and "(\<forall>r \<in> set rs. is_number (result r))
           \<or> (\<not> is_number (result (hd rs)) \<and> result (hd rs') = result (hd rs))"
  shows "\<exists>c c'. combineResults exact co rs = Inr c \<and> combineResults exact co rs' = Inr c'
           \<and> (iterations (hd rs') = iterations (hd rs) \<longrightarrow> c' = c)"
proof -
  have len: "length rs' = length rs" using assms(1) by (rule mset_eq_length)
  show ?thesis
  proof (cases "length rs = 1")
    case True
    then obtain r where r: "rs = [r]" by (cases rs) simp_all
    then have "rs' = [r]" using assms(1) by simp
    then show ?thesis using r by (simp add: combineResults_def)
  next
    case False
    moreover have "length rs \<noteq> 0" using assms(2) by simp
    ultimately have two: "2 \<le> length rs" by linarith
    then have two': "2 \<le> length rs'" using len by simp
    have ne': "rs' \<noteq> []" using two' by auto
    have sets: "set rs' = set rs" using assms(1) by (rule mset_eq_setD)
    have a: "foldl (accumulate exact (real (length rs))) (combine_start (Fin 0)) rs'
        = foldl (accumulate exact (real (length rs))) (combine_start (Fin 0)) rs"
      by (rule foldl_accumulate_perm) (rule assms(1))
    from assms(3) show ?thesis
    proof
      assume all: "\<forall>r \<in> set rs. is_number (result r)"
      obtain t where t:
        "reduce_plus exact co (JNumber (Fin 0)) (map result rs) = Inr (JNumber t)"
        "reduce_plus exact co (JNumber (Fin 0)) (map result rs') = Inr (JNumber t)"
        using reduce_plus_perm [OF assms(1) all] by blast
      have "is_number (result (hd rs))" using all assms(2) by simp
      then obtain x where x: "result (hd rs) = JNumber x"
        by (cases "result (hd rs)") simp_all
      have "hd rs' \<in> set rs" using ne' sets by (metis hd_in_set)
      then have "is_number (result (hd rs'))" using all by simp
      then obtain y where y: "result (hd rs') = JNumber y"
        by (cases "result (hd rs')") simp_all
      show ?thesis
        unfolding combineResults_many [OF two] combineResults_many [OF two']
        by (simp add: x y t a len)
    next
      assume v: "\<not> is_number (result (hd rs)) \<and> result (hd rs') = result (hd rs)"
      then have v': "\<not> is_number (result (hd rs'))" by simp
      show ?thesis
        unfolding combineResults_copied [OF two conjunct1 [OF v]]
          combineResults_copied [OF two' v']
        using v by (simp add: len a)
    qed
  qed
qed

text \<open>
  Claim C6, as amended. For every non-empty list of reports and every permutation of it:
  when the merge succeeds on both and the sums are taken exactly, the two merged results
  have the same \<open>duration\<close>, \<open>operationsPerSecond\<close> and \<open>memoryDelta\<close>, and each has
  the iteration count of its own first report; when the \<open>result\<close> of every report is a
  number, or the \<open>result\<close> of the two first reports is the same value and not a number,
  the merge succeeds on both, and the two merged results are equal if the two first
  reports have the same iteration count; and for two reports the merged \<open>duration\<close>,
  \<open>operationsPerSecond\<close> and \<open>memoryDelta\<close> are the same in both orders in double
  arithmetic as well.
\<close>

theorem combineResults_permutation:
  assumes "mset rs' = mset rs" "rs \<noteq> []"
  shows "(\<forall>c c'. combineResults exact co rs = Inr c \<and> combineResults exact co rs' = Inr c'
          \<longrightarrow> duration c' = duration c
              \<and> operationsPerSecond c' = operationsPerSecond c
              \<and> memoryDelta c' = memoryDelta c
              \<and> iterations c = iterations (hd rs) \<and> iterations c' = iterations (hd rs'))
       \<and> ((\<forall>r \<in> set rs. is_number (result r))
            \<or> (\<not> is_number (result (hd rs)) \<and> result (hd rs') = result (hd rs))
          \<longrightarrow> (\<exists>c c'. combineResults exact co rs = Inr c \<and> combineResults exact co rs' = Inr c'
                 \<and> (iterations (hd rs') = iterations (hd rs) \<longrightarrow> c' = c)))
       \<and> (length rs = 2 \<longrightarrow>
            (\<forall>d d'. combineResults fl64 co rs = Inr d \<and> combineResults fl64 co rs' = Inr d'
               \<longrightarrow> duration d' = duration d
                   \<and> operationsPerSecond d' = operationsPerSecond d
                   \<and> memoryDelta d' = memoryDelta d))"
proof (intro conjI allI impI)
  fix c c'
  assume "combineResults exact co rs = Inr c \<and> combineResults exact co rs' = Inr c'"
  then have "duration c' = duration c \<and> operationsPerSecond c' = operationsPerSecond c
       \<and> memoryDelta c' = memoryDelta c
       \<and> iterations c = iterations (hd rs) \<and> iterations c' = iterations (hd rs')"
    using combineResults_exact_fields [OF assms] by blast
  then show "duration c' = duration c" "operationsPerSecond c' = operationsPerSecond c"
    "memoryDelta c' = memoryDelta c" "iterations c = iterations (hd rs)"
    "iterations c' = iterations (hd rs')"
    by simp_all
next
  assume "(\<forall>r \<in> set rs. is_number (result r))
            \<or> (\<not> is_number (result (hd rs)) \<and> result (hd rs') = result (hd rs))"
  then show "\<exists>c c'. combineResults exact co rs = Inr c \<and> combineResults exact co rs' = Inr c'
                 \<and> (iterations (hd rs') = iterations (hd rs) \<longrightarrow> c' = c)"
    by (rule combineResults_exact_equal [OF assms])
next
  fix d d'
  assume "length rs = 2"
    and "combineResults fl64 co rs = Inr d \<and> combineResults fl64 co rs' = Inr d'"
  then have "duration d' = duration d \<and> operationsPerSecond d' = operationsPerSecond d
       \<and> memoryDelta d' = memoryDelta d"
    using combineResults_two_doubles [OF assms(1)] by blast
  then show "duration d' = duration d" "operationsPerSecond d' = operationsPerSecond d"
    "memoryDelta d' = memoryDelta d"
    by simp_all
qed

lemma reports_swapped: "mset [b, a] = mset [a, b]"
  by (simp add: add_mset_commute)

theorem combineResults_permutation_witness:
  "\<forall>co. mset [report 20 1000, report 10 1000] = mset [report 10 1000, report 20 1000]
     \<and> [report 10 1000, report 20 1000] \<noteq> []
     \<and> \<not> is_number (result (hd [report 10 1000, report 20 1000]))
     \<and> result (hd [report 20 1000, report 10 1000]) = result (hd [report 10 1000, report 20 1000])
     \<and> iterations (hd [report 20 1000, report 10 1000])
         = iterations (hd [report 10 1000, report 20 1000])
     \<and> length [report 10 1000, report 20 1000] = 2
     \<and> (\<exists>c. combineResults exact co [report 10 1000, report 20 1000] = Inr c
            \<and> combineResults exact co [report 20 1000, report 10 1000] = Inr c
            \<and> duration c = 15)
     \<and> (\<exists>d d'. combineResults fl64 co [report 10 1000, report 20 1000] = Inr d
            \<and> combineResults fl64 co [report 20 1000, report 10 1000] = Inr d'
            \<and> duration d' = duration d)
     \<and> (\<exists>c. combineResults exact co
                 [(report 10 1000)\<lparr>result := JNumber (Fin 1)\<rparr>,
                  (report 20 1000)\<lparr>result := JNumber (Fin 3)\<rparr>] = Inr c
            \<and> combineResults exact co
                 [(report 20 1000)\<lparr>result := JNumber (Fin 3)\<rparr>,
                  (report 10 1000)\<lparr>result := JNumber (Fin 1)\<rparr>] = Inr c
            \<and> result c = JNumber (Fin 2))"
proof
  fix co :: "unit coercion"
  let ?rs = "[report 10 1000, report 20 1000]" and ?rs' = "[report 20 1000, report 10 1000]"
  let ?a = "(report 10 1000)\<lparr>result := JNumber (Fin 1)\<rparr>"
  let ?b = "(report 20 1000)\<lparr>result := JNumber (Fin 3)\<rparr>"
  have numbers: "\<forall>r \<in> set [?a, ?b]. is_number (result r)" by simp
  have same_count: "iterations (hd [?b, ?a]) = iterations (hd [?a, ?b])"
    by (simp add: report_def)
  obtain k k' where k:
    "combineResults exact co [?a, ?b] = Inr k" "combineResults exact co [?b, ?a] = Inr k'"
    "iterations (hd [?b, ?a]) = iterations (hd [?a, ?b]) \<longrightarrow> k' = k"
    using combineResults_permutation [OF reports_swapped, of ?a ?b co] numbers by blast
  have k': "combineResults exact co [?b, ?a] = Inr k" using k same_count by simp
  have "result k = JNumber (Fin 2)"
    using k(1) by (auto simp: combineResults_many exact_def)
  then have number_part: "\<exists>c. combineResults exact co [?a, ?b] = Inr c
            \<and> combineResults exact co [?b, ?a] = Inr c \<and> result c = JNumber (Fin 2)"
    using k(1) k' by blast
  have h: "\<not> is_number (result (hd ?rs))" "result (hd ?rs') = result (hd ?rs)"
      "iterations (hd ?rs') = iterations (hd ?rs)" "length ?rs = 2"
    by (simp_all add: report_def)
  have h': "\<not> is_number (result (hd ?rs'))" by (simp add: report_def)
  have two: "2 \<le> length ?rs" "2 \<le> length ?rs'" by simp_all
  note perm = combineResults_permutation [OF reports_swapped, of "report 10 1000" "report 20 1000" co]
  obtain c c' where c:
    "combineResults exact co ?rs = Inr c" "combineResults exact co ?rs' = Inr c'"
    "iterations (hd ?rs') = iterations (hd ?rs) \<longrightarrow> c' = c"
    using perm h(1,2) by blast
  have same: "combineResults exact co ?rs' = Inr c" using c h(3) by simp
  have "duration c = 15"
    using c(1) unfolding combineResults_copied [OF two(1) h(1)]
    by (auto simp: accumulate_def combine_start_def report_def exact_def)
  then have exact_part: "\<exists>c. combineResults exact co ?rs = Inr c
            \<and> combineResults exact co ?rs' = Inr c \<and> duration c = 15"
    using c(1) same by blast
  obtain d d' where d: "combineResults fl64 co ?rs = Inr d" "combineResults fl64 co ?rs' = Inr d'"
    unfolding combineResults_copied [OF two(1) h(1)] combineResults_copied [OF two(2) h']
    by blast
  have "duration d' = duration d" using perm h(4) d by blast
  then have double_part: "\<exists>d d'. combineResults fl64 co ?rs = Inr d
            \<and> combineResults fl64 co ?rs' = Inr d' \<and> duration d' = duration d"
    using d by blast
  show "mset ?rs' = mset ?rs \<and> ?rs \<noteq> []
     \<and> \<not> is_number (result (hd ?rs))
     \<and> result (hd ?rs') = result (hd ?rs)
     \<and> iterations (hd ?rs') = iterations (hd ?rs)
     \<and> length ?rs = 2
     \<and> (\<exists>c. combineResults exact co ?rs = Inr c
            \<and> combineResults exact co ?rs' = Inr c \<and> duration c = 15)
     \<and> (\<exists>d d'. combineResults fl64 co ?rs = Inr d
            \<and> combineResults fl64 co ?rs' = Inr d' \<and> duration d' = duration d)
     \<and> (\<exists>c. combineResults exact co [?a, ?b] = Inr c
            \<and> combineResults exact co [?b, ?a] = Inr c \<and> result c = JNumber (Fin 2))"
    by (intro conjI reports_swapped h exact_part double_part number_part) simp
qed

lemma combined_duration_three:
  assumes "\<not> is_number (result a)"
  shows "duration (projr (combineResults rnd co [a, b, c]))
     = rnd (rnd (rnd (rnd (duration a / 3)) + rnd (duration b / 3)) + rnd (duration c / 3))"
  using assms by (simp add: combineResults_copied accumulate_def combine_start_def)

lemma fl64_third: "fl64 (1 / 3) = third"
  using fl64_in_binade [of "1 / 3" "-54"]
  by (simp add: third_def round_half_even_def power_int_minus)

lemma fl64_third_sums:
  "fl64 third = third"
  "fl64 (third + third) = 2 * third"
  "fl64 (2 * third + 4 * third) = 2"
  "fl64 (4 / 3) = 4 * third"
  "fl64 (4 * third) = 4 * third"
  "fl64 (4 * third + third) = 7505999378950826 / 2 ^ 52"
  "fl64 (7505999378950826 / 2 ^ 52 + third) = 9007199254740991 / 2 ^ 52"
  using fl64_in_binade [of third "-54"] fl64_in_binade [of "third + third" "-53"]
    fl64_in_binade [of "2 * third + 4 * third" "-52"] fl64_in_binade [of "4 / 3" "-52"]
    fl64_in_binade [of "4 * third" "-52"] fl64_in_binade [of "4 * third + third" "-52"]
    fl64_in_binade [of "7505999378950826 / 2 ^ 52 + third" "-52"]
  by (simp_all add: third_def round_half_even_def power_int_minus)

text \<open>
  Claim C6 as stated fails in double arithmetic. Three contexts that ran the same number
  of iterations report durations of \<open>1\<close>, \<open>1\<close> and \<open>4\<close> milliseconds; each is divided
  by three and added to the running sum, and each step rounds. In the order
  \<open>1, 1, 4\<close> the merged duration is \<open>2\<close>; in the order \<open>4, 1, 1\<close> it is
  \<open>1.9999999999999998\<close>.
\<close>

theorem combineResults_order_dependent:
  "\<forall>co. mset [report 4 1000, report 1 1000, report 1 1000]
         = mset [report 1 1000, report 1 1000, report 4 1000]
     \<and> duration (projr (combineResults fl64 co [report 1 1000, report 1 1000, report 4 1000])) = 2
     \<and> duration (projr (combineResults fl64 co [report 4 1000, report 1 1000, report 1 1000]))
         = 9007199254740991 / 2 ^ 52
     \<and> combineResults fl64 co [report 4 1000, report 1 1000, report 1 1000]
         \<noteq> combineResults fl64 co [report 1 1000, report 1 1000, report 4 1000]"
proof
  fix co :: "unit coercion"
  have d: "duration (report 1 1000) = 1" "duration (report 4 1000) = 4"
    by (simp_all add: report_def)
  have u: "\<not> is_number (result (report d n))" for d n
    by (simp add: report_def)
  have a: "duration (projr (combineResults fl64 co [report 1 1000, report 1 1000, report 4 1000])) = 2"
    unfolding combined_duration_three [OF u] d
    by (simp only: fl64_third fl64_third_sums)
  have b: "duration (projr (combineResults fl64 co [report 4 1000, report 1 1000, report 1 1000]))
         = 9007199254740991 / 2 ^ 52"
    unfolding combined_duration_three [OF u] d
    by (simp only: fl64_third fl64_third_sums)
  have "combineResults fl64 co [report 4 1000, report 1 1000, report 1 1000]
         \<noteq> combineResults fl64 co [report 1 1000, report 1 1000, report 4 1000]"
    using a b by auto
  then show "mset [report 4 1000, report 1 1000, report 1 1000]
         = mset [report 1 1000, report 1 1000, report 4 1000]
     \<and> duration (projr (combineResults fl64 co [report 1 1000, report 1 1000, report 4 1000])) = 2
     \<and> duration (projr (combineResults fl64 co [report 4 1000, report 1 1000, report 1 1000]))
         = 9007199254740991 / 2 ^ 52
     \<and> combineResults fl64 co [report 4 1000, report 1 1000, report 1 1000]
         \<noteq> combineResults fl64 co [report 1 1000, report 1 1000, report 4 1000]"
    using a b by (simp add: add_mset_commute)
qed

section \<open>Properties of a single run\<close>

lemma js_or_zero: "js_or (Some (Fin 0)) (Fin 1) = js_or (Some (Fin 1)) (Fin 1)"
  by simp

lemma merge_options_iterations:
  "iterations_opt (merge_options d (options\<lparr>iterations_opt := Some x\<rparr>)) = Some x"
  "warmupRuns_opt (merge_options d (options\<lparr>iterations_opt := Some x\<rparr>))
     = warmupRuns_opt (merge_options d options)"
  "gcBetweenRuns_opt (merge_options d (options\<lparr>iterations_opt := Some x\<rparr>))
     = gcBetweenRuns_opt (merge_options d options)"
  by (simp_all add: merge_options_def spread_def)

lemma runBenchmark_unfold:
  assumes "loop_count (js_or (warmupRuns_opt (merge_options DEFAULT_OPTIONS options)) (Fin 0))
             = Some warmups"
      and "loop_count (js_or (iterations_opt (merge_options DEFAULT_OPTIONS options)) (Fin 1))
             = Some n"
  shows "runBenchmark rnd h benchmarkFn options w =
     (let flag = gcBetweenRuns_opt (merge_options DEFAULT_OPTIONS options);
          w2 = warmup_loop h flag benchmarkFn warmups (gc_if h flag w);
          rw = measured_loop benchmarkFn n (JUndefined, w2);
          duration = rnd (now h (snd rw) - now h w2);
          iterations = js_or (iterations_opt (merge_options DEFAULT_OPTIONS options)) (Fin 1)
      in Some (\<lparr>duration = duration, iterations = iterations,
                 operationsPerSecond = js_mul rnd (js_div rnd iterations (Fin duration)) (Fin 1000),
                 memoryDelta = calculateMemoryDelta rnd (memoryUsage h w2) (memoryUsage h (snd rw)),
                 result = fst rw\<rparr>, snd rw))"
  unfolding runBenchmark_def Let_def assms option.case prod.case_eq_if by (rule refl)

lemma runBenchmark_diverges:
  assumes "loop_count (js_or (warmupRuns_opt (merge_options DEFAULT_OPTIONS options)) (Fin 0)) = None"
  shows "runBenchmark rnd h benchmarkFn options w = None"
  unfolding runBenchmark_def Let_def assms option.case by (rule refl)

text \<open>
  Claim C2, as amended. With \<open>iterations = 0\<close> \<^verbatim>\<open>runBenchmark\<close> does not fail: it does
  exactly what it does with \<open>iterations = 1\<close> (\<^verbatim>\<open>opts.iterations || 1\<close>), and, when the
  warmup count is finite, it returns a result that reports one iteration.
\<close>

theorem runBenchmark_zero_iterations:
  "runBenchmark rnd h benchmarkFn (options\<lparr>iterations_opt := Some (Fin 0)\<rparr>) w
     = runBenchmark rnd h benchmarkFn (options\<lparr>iterations_opt := Some (Fin 1)\<rparr>) w
   \<and> (loop_count (js_or (warmupRuns_opt (merge_options DEFAULT_OPTIONS options)) (Fin 0)) \<noteq> None
        \<longrightarrow> (\<exists>res w'. runBenchmark rnd h benchmarkFn (options\<lparr>iterations_opt := Some (Fin 0)\<rparr>) w
                          = Some (res, w')
                      \<and> iterations res = Fin 1))"
proof (cases "loop_count (js_or (warmupRuns_opt (merge_options DEFAULT_OPTIONS options)) (Fin 0))")
  case None
  then show ?thesis
    by (simp add: runBenchmark_diverges merge_options_iterations)
next
  case (Some warmups)
  have w0: "loop_count (js_or (warmupRuns_opt (merge_options DEFAULT_OPTIONS
               (options\<lparr>iterations_opt := Some (Fin 0)\<rparr>))) (Fin 0)) = Some warmups"
    by (simp add: merge_options_iterations Some)
  have i0: "loop_count (js_or (iterations_opt (merge_options DEFAULT_OPTIONS
               (options\<lparr>iterations_opt := Some (Fin 0)\<rparr>))) (Fin 1)) = Some 1"
    by (simp add: merge_options_iterations)
  have w1: "loop_count (js_or (warmupRuns_opt (merge_options DEFAULT_OPTIONS
               (options\<lparr>iterations_opt := Some (Fin 1)\<rparr>))) (Fin 0)) = Some warmups"
    by (simp add: merge_options_iterations Some)
  have i1: "loop_count (js_or (iterations_opt (merge_options DEFAULT_OPTIONS
               (options\<lparr>iterations_opt := Some (Fin 1)\<rparr>))) (Fin 1)) = Some 1"
    by (simp add: merge_options_iterations)
  note zero = runBenchmark_unfold [OF w0 i0, of rnd h benchmarkFn w]
  note one = runBenchmark_unfold [OF w1 i1, of rnd h benchmarkFn w]
  show ?thesis
    unfolding zero one by (simp add: merge_options_iterations Let_def)
qed

theorem runBenchmark_zero_iterations_witness:
  "loop_count (js_or (warmupRuns_opt (merge_options DEFAULT_OPTIONS no_options)) (Fin 0)) \<noteq> None
   \<and> runBenchmark exact counting_host counting_fn (no_options\<lparr>iterations_opt := Some (Fin 0)\<rparr>) 0
       = runBenchmark exact counting_host counting_fn (no_options\<lparr>iterations_opt := Some (Fin 1)\<rparr>) 0
   \<and> runBenchmark exact counting_host counting_fn (no_options\<lparr>iterations_opt := Some (Fin 1)\<rparr>) 0
       = Some (\<lparr>duration = 1, iterations = Fin 1, operationsPerSecond = Fin 1000,
                 memoryDelta = \<lparr>heapUsed = 0, heapTotal = 0, rss = 0, external = 0\<rparr>,
                 result = JUndefined\<rparr>, 1)"
  using runBenchmark_zero_iterations [of exact counting_host counting_fn no_options 0]
  by (simp add: runBenchmark_def Let_def merge_options_def spread_def DEFAULT_OPTIONS_def
      no_options_def counting_host_def counting_fn_def gc_if_def calculateMemoryDelta_def
      exact_def)

text \<open>
  Claim C2 as stated fails: on the counting host the call with \<open>iterations = 0\<close> returns
  normally, having called the function once (the world is \<open>1\<close>), and reports
  \<open>iterations = 1\<close>.
\<close>

theorem runBenchmark_zero_iterations_returns:
  "runBenchmark fl64 counting_host counting_fn (no_options\<lparr>iterations_opt := Some (Fin 0)\<rparr>) 0
     = Some (\<lparr>duration = 1, iterations = Fin 1, operationsPerSecond = Fin 1000,
               memoryDelta = \<lparr>heapUsed = 0, heapTotal = 0, rss = 0, external = 0\<rparr>,
               result = JUndefined\<rparr>, 1)"
  by (simp add: runBenchmark_def Let_def merge_options_def spread_def DEFAULT_OPTIONS_def
      no_options_def counting_host_def counting_fn_def gc_if_def calculateMemoryDelta_def
      fl64_zero fl64_one fl64_numeral)

section \<open>Properties of the orchestrator\<close>

lemma on_event_frozen: "errorOccurred s \<Longrightarrow> on_event rnd co pc e s = s"
  by (cases e) (simp_all add: handleCompletion_def)

lemma on_events_frozen: "errorOccurred s \<Longrightarrow> on_events rnd co pc es s = s"
  by (induction es) (simp_all add: on_events_def on_event_frozen)

lemma on_events_append:
  "on_events rnd co pc (es @ es') s = on_events rnd co pc es' (on_events rnd co pc es s)"
  by (simp add: on_events_def)

lemma on_events_snoc: "on_events rnd co pc (es @ [e]) s = on_event rnd co pc e (on_events rnd co pc es s)"
  by (simp add: on_events_def)

lemma on_event_failure:
  assumes "\<not> errorOccurred s" "failure_of e = Some err"
  shows "on_event rnd co pc e s =
           s\<lparr>errorOccurred := True, cleanups := cleanups s + 1,
             promise := settle (Rejected err) (promise s)\<rparr>"
  using assms by (cases e) (auto simp: handleCompletion_def split: if_splits)

lemma on_event_other:
  assumes "\<not> is_report e" "failure_of e = None"
  shows "on_event rnd co pc e s = s"
  using assms by (cases e) (auto simp: handleCompletion_def split: if_splits)

lemma on_event_report:
  assumes "\<not> errorOccurred s" "is_report e"
  shows "on_event rnd co pc e s =
     (if count_is (completedCount s + 1) pc then
        (case combineResults rnd co (results s @ delivered [e]) of
           Inr c \<Rightarrow> (after_report s e)\<lparr>cleanups := cleanups s + 1,
                       promise := settle (Resolved c) (promise s)\<rparr>
         | Inl x \<Rightarrow> (after_report s e)\<lparr>cleanups := cleanups s + 1, uncaught := uncaught s @ [x]\<rparr>)
      else after_report s e)"
  using assms
  by (cases e)
     (auto simp: handleCompletion_def after_report_def Let_def split: option.splits sum.splits)

lemma delivered_append: "delivered (es @ es') = delivered es @ delivered es'"
  by (induction es rule: delivered.induct) (simp_all split: option.splits)

lemma report_not_failure: "is_report e \<Longrightarrow> failure_of e = None"
  by (cases e) simp_all

lemma reports_simps [simp]:
  "reports [] = 0"
  "reports (es @ es') = reports es + reports es'"
  "reports [e] = (if is_report e then 1 else 0)"
  by (simp_all add: reports_def)

lemma resolved_by_snoc: "resolved_by rnd co pc es c \<Longrightarrow> resolved_by rnd co pc (es @ [e]) c"
  unfolding resolved_by_def by (metis append.assoc)

lemma resolved_by_all:
  "list_all (\<lambda>e. failure_of e = None) es \<Longrightarrow> count_is (reports es) pc
   \<Longrightarrow> combineResults rnd co (delivered es) = Inr c \<Longrightarrow> resolved_by rnd co pc es c"
  unfolding resolved_by_def by (metis append_Nil2)

lemma orchestration_invariant:
  fixes es :: "'a context_event list"
  shows "let s = on_events rnd co pc es (initial_orchestration :: 'a orchestration) in
         (errorOccurred s \<longleftrightarrow> \<not> list_all (\<lambda>e. failure_of e = None) es)
       \<and> (\<not> errorOccurred s \<longrightarrow> completedCount s = reports es \<and> results s = delivered es)
       \<and> (\<forall>c. promise s = Resolved c \<longrightarrow> resolved_by rnd co pc es c)
       \<and> (\<forall>x. promise s = Rejected x \<longrightarrow> errorOccurred s)"
  unfolding Let_def
proof (induction es rule: rev_induct)
  case Nil
  then show ?case by (simp add: on_events_def initial_orchestration_def)
next
  case (snoc e es)
  define t where "t = on_events rnd co pc es (initial_orchestration :: 'a orchestration)"
  note IH = snoc.IH [folded t_def]
  have step: "on_events rnd co pc (es @ [e]) initial_orchestration = on_event rnd co pc e t"
    by (simp add: on_events_snoc t_def)
  show ?case
  proof (cases "errorOccurred t")
    case True
    then show ?thesis
      unfolding step using IH by (auto simp: on_event_frozen intro: resolved_by_snoc)
  next
    case live: False
    show ?thesis
    proof (cases "failure_of e")
      case (Some err)
      show ?thesis
        unfolding step on_event_failure [OF live Some]
        using IH live Some
        by (auto simp: settle_def intro: resolved_by_snoc split: settlement.splits)
    next
      case None
      show ?thesis
      proof (cases "is_report e")
        case False
        have d: "delivered [e] = []" using False by (cases e) simp_all
        show ?thesis
          unfolding step on_event_other [OF False None]
          using IH live None False by (auto simp: delivered_append d intro: resolved_by_snoc)
      next
        case True
        define t' where "t' = on_event rnd co pc e t"
        have clean: "list_all (\<lambda>e. failure_of e = None) (es @ [e])"
          using IH live None by simp
        have cnt: "completedCount t + 1 = reports (es @ [e])"
          using IH live True by simp
        have res: "results t @ delivered [e] = delivered (es @ [e])"
          using IH live by (simp add: delivered_append)
        have t': "t' =
          (if count_is (reports (es @ [e])) pc then
             (case combineResults rnd co (delivered (es @ [e])) of
                Inr c \<Rightarrow> (after_report t e)\<lparr>cleanups := cleanups t + 1,
                            promise := settle (Resolved c) (promise t)\<rparr>
              | Inl x \<Rightarrow> (after_report t e)\<lparr>cleanups := cleanups t + 1,
                            uncaught := uncaught t @ [x]\<rparr>)
           else after_report t e)"
          unfolding t'_def on_event_report [OF live True] cnt res by (rule refl)
        have eo: "\<not> errorOccurred t'"
          using live by (simp add: t' after_report_def split: sum.splits)
        have cc: "completedCount t' = reports (es @ [e])"
          using cnt by (simp add: t' after_report_def split: sum.splits)
        have rs: "results t' = delivered (es @ [e])"
          using res by (simp add: t' after_report_def split: sum.splits)
        have old: "promise t = Resolved c \<Longrightarrow> resolved_by rnd co pc (es @ [e]) c" for c
          using IH by (auto intro: resolved_by_snoc)
        have notrej: "promise t \<noteq> Rejected x" for x
          using IH live by auto
        have pr: "resolved_by rnd co pc (es @ [e]) c" if "promise t' = Resolved c" for c
        proof (cases "promise t")
          case Pending
          then have "count_is (reports (es @ [e])) pc \<and> combineResults rnd co (delivered (es @ [e])) = Inr c"
            using that
            by (auto simp: t' after_report_def settle_def split: if_splits sum.splits)
          then show ?thesis using clean by (auto intro: resolved_by_all)
        next
          case (Resolved c0)
          then have "promise t' = Resolved c0"
            by (simp add: t' after_report_def settle_def split: sum.splits)
          then show ?thesis using that old Resolved by simp
        next
          case (Rejected x)
          then show ?thesis using notrej by simp
        qed
        have rj: "promise t' \<noteq> Rejected x" for x
          using notrej [of x]
          by (cases "promise t")
             (auto simp: t' after_report_def settle_def split: if_splits sum.splits)
        show ?thesis
          unfolding step t'_def [symmetric]
          using clean eo cc rs pr rj by simp
      qed
    qed
  qed
qed

lemma delivered_complete:
  "list_all carries_result es \<Longrightarrow> length (delivered es) = reports es"
  by (induction es rule: delivered.induct)
     (auto simp: reports_def carries_result_def split: option.splits)

lemma promise_settled_event:
  "promise s \<noteq> Pending \<Longrightarrow> promise (on_event rnd co pc e s) = promise s"
  by (cases e; cases "promise s")
     (auto simp: handleCompletion_def settle_def Let_def split: option.splits sum.splits)

lemma promise_settled:
  "promise s \<noteq> Pending \<Longrightarrow> promise (on_events rnd co pc es s) = promise s"
proof (induction es rule: rev_induct)
  case Nil
  then show ?case by (simp add: on_events_def)
next
  case (snoc e es)
  then show ?case by (simp add: on_events_snoc promise_settled_event)
qed

lemma isolated_unfold:
  assumes "runIsolatedBenchmark rnd co name options launch_error events = Inr s"
  shows "s = on_events rnd co (spread (Some (Fin 1)) (processCount_opt options)) events
               (case launch_error of None \<Rightarrow> initial_orchestration
                | Some e \<Rightarrow> initial_orchestration\<lparr>cleanups := 1, promise := Rejected e\<rparr>)"
  using assms by (simp add: runIsolatedBenchmark_def Let_def initial_orchestration_def split: if_splits)

lemma resolved_by_count:
  assumes "resolved_by rnd co (Some (Fin (real n))) es c"
  shows "\<exists>pre post. es = pre @ post \<and> list_all (\<lambda>e. failure_of e = None) pre
           \<and> reports pre = n \<and> combineResults rnd co (delivered pre) = Inr c"
  using assms unfolding resolved_by_def by auto

text \<open>
  Claim C5, as amended. For every run of \<^verbatim>\<open>runIsolatedBenchmark\<close> whose \<open>processCount\<close>
  in effect is \<open>n\<close> (the caller's, or the default \<open>1\<close>) and every sequence of events
  from the contexts: if the promise is resolved with \<open>c\<close>, then a prefix of the events
  has no failure and exactly \<open>n\<close> result reports, and \<open>c\<close> is the merge of the results
  that this prefix delivers, which are \<open>n\<close> results when every report carries one; and
  when the launch succeeded, the first failure (an error report, an \<^verbatim>\<open>'error'\<close> event or
  an exit with a non-zero code) that comes before \<open>n\<close> reports are in rejects the call
  with its error, whatever comes after.
\<close>

theorem runIsolatedBenchmark_completion:
  assumes "runIsolatedBenchmark rnd co name options launch_error events = Inr s"
      and "spread (Some (Fin 1)) (processCount_opt options) = Some (Fin (real n))"
  shows "(\<forall>c. promise s = Resolved c \<longrightarrow>
            (\<exists>pre post. events = pre @ post
               \<and> list_all (\<lambda>e. failure_of e = None) pre
               \<and> reports pre = n
               \<and> combineResults rnd co (delivered pre) = Inr c
               \<and> (list_all carries_result pre \<longrightarrow> length (delivered pre) = n)))
       \<and> (\<forall>pre e post err.
             launch_error = None \<and> events = pre @ e # post
             \<and> list_all (\<lambda>e. failure_of e = None) pre \<and> reports pre < n
             \<and> failure_of e = Some err
             \<longrightarrow> promise s = Rejected err)"
proof (intro conjI allI impI)
  fix c
  assume r: "promise s = Resolved c"
  note pc = assms(2)
  have "launch_error = None"
  proof (cases launch_error)
    case (Some e)
    then have "promise s = Rejected e"
      using isolated_unfold [OF assms(1)] by (simp add: promise_settled)
    then show ?thesis using r by simp
  qed simp
  then have s: "s = on_events rnd co (Some (Fin (real n))) events initial_orchestration"
    using isolated_unfold [OF assms(1)] pc by simp
  have "resolved_by rnd co (Some (Fin (real n))) events c"
    using orchestration_invariant [of rnd co "Some (Fin (real n))" events] r
    by (simp add: Let_def s)
  then obtain pre post where p: "events = pre @ post" "list_all (\<lambda>e. failure_of e = None) pre"
      "reports pre = n" "combineResults rnd co (delivered pre) = Inr c"
    using resolved_by_count by blast
  then show "\<exists>pre post. events = pre @ post
               \<and> list_all (\<lambda>e. failure_of e = None) pre
               \<and> reports pre = n
               \<and> combineResults rnd co (delivered pre) = Inr c
               \<and> (list_all carries_result pre \<longrightarrow> length (delivered pre) = n)"
    using delivered_complete [of pre] by blast
next
  fix pre e post err
  assume a: "launch_error = None \<and> events = pre @ e # post
             \<and> list_all (\<lambda>e. failure_of e = None) pre \<and> reports pre < n
             \<and> failure_of e = Some err"
  note pc = assms(2)
  define t where "t = on_events rnd co (Some (Fin (real n))) pre (initial_orchestration :: 'a orchestration)"
  have s: "s = on_events rnd co (Some (Fin (real n))) post (on_event rnd co (Some (Fin (real n))) e t)"
    using isolated_unfold [OF assms(1)] pc a
    by (simp add: t_def on_events_def)
  note inv = orchestration_invariant [of rnd co "Some (Fin (real n))" pre, unfolded Let_def, folded t_def]
  have live: "\<not> errorOccurred t" using inv a by simp
  have "promise t = Pending"
  proof (cases "promise t")
    case (Resolved c)
    then have "resolved_by rnd co (Some (Fin (real n))) pre c" using inv by simp
    then obtain p q where "pre = p @ q" "reports p = n" using resolved_by_count by blast
    then show ?thesis using a by simp
  next
    case (Rejected x)
    then show ?thesis using inv live by simp
  qed simp
  then have "promise (on_event rnd co (Some (Fin (real n))) e t) = Rejected err"
    using a live by (simp add: on_event_failure settle_def)
  then show "promise s = Rejected err"
    unfolding s by (simp add: promise_settled)
qed

lemma valid_bench: "valid_name ''bench''"
  by (simp add: valid_name_def)

lemma report_result: "result (report d n) = JUndefined"
  by (simp add: report_def)

theorem runIsolatedBenchmark_completion_witness:
  "\<forall>co. promise (projr (runIsolatedBenchmark exact co ''bench'' (isolation_options 3) None
        [result_report (report 10 1000), error_report ''boom'', result_report (report 20 1000)]))
       = Rejected (ContextError ''boom'')
     \<and> promise (projr (runIsolatedBenchmark exact co ''bench'' (isolation_options 2) None
        [result_report (report 10 1000), result_report (report 20 1000)]))
       = Resolved (projr (combineResults exact co [report 10 1000, report 20 1000]))"
proof
  fix co :: "unit coercion"
  define es :: "unit context_event list" where
    "es = [result_report (report 10 1000), error_report ''boom'', result_report (report 20 1000)]"
  obtain s where s: "runIsolatedBenchmark exact co ''bench'' (isolation_options 3) None es = Inr s"
    by (simp add: runIsolatedBenchmark_def valid_bench)
  have pc: "spread (Some (Fin 1)) (processCount_opt (isolation_options 3)) = Some (Fin (real 3))"
    by (simp add: isolation_options_def spread_def)
  have "launch_error = None \<and> es = pre @ e # post
        \<and> list_all (\<lambda>e. failure_of e = None) pre \<and> reports pre < 3
        \<and> failure_of e = Some err \<longrightarrow> promise s = Rejected err"
    if "launch_error = (None :: error option)" for launch_error pre e post err
    using runIsolatedBenchmark_completion [OF s pc] that by blast
  from this [of None "[result_report (report 10 1000)]" "error_report ''boom''"
      "[result_report (report 20 1000)]" "ContextError ''boom''"]
  have "promise s = Rejected (ContextError ''boom'')"
    by (simp add: es_def result_report_def error_report_def reports_def)
  then have a: "promise (projr (runIsolatedBenchmark exact co ''bench'' (isolation_options 3) None es))
      = Rejected (ContextError ''boom'')"
    by (simp add: s)
  have b: "promise (projr (runIsolatedBenchmark exact co ''bench'' (isolation_options 2) None
      [result_report (report 10 1000), result_report (report 20 1000)]))
     = Resolved (projr (combineResults exact co [report 10 1000, report 20 1000]))"
    by (simp add: runIsolatedBenchmark_def valid_bench Let_def isolation_options_def spread_def
        initial_orchestration_def on_events_def result_report_def handleCompletion_def
        combineResults_def settle_def report_result)
  show "promise (projr (runIsolatedBenchmark exact co ''bench'' (isolation_options 3) None
        [result_report (report 10 1000), error_report ''boom'', result_report (report 20 1000)]))
       = Rejected (ContextError ''boom'')
     \<and> promise (projr (runIsolatedBenchmark exact co ''bench'' (isolation_options 2) None
        [result_report (report 10 1000), result_report (report 20 1000)]))
       = Resolved (projr (combineResults exact co [report 10 1000, report 20 1000]))"
    using a b by (simp add: es_def)
qed

text \<open>
  Claim C5 as stated fails. A message of type \<^verbatim>\<open>benchmarkResult\<close> that carries no
  result is counted as a report and adds nothing to the results: with
  \<open>processCount = 2\<close>, such a message and one result report resolve the call with the
  one result received, a merge over fewer results than \<open>processCount\<close>. And a failure
  that comes after the last report does not reject the call: the promise is resolved
  already.
\<close>

theorem runIsolatedBenchmark_partial_results:
  "\<forall>co. reports ([bare_report, result_report (report 10 1000)] :: unit context_event list) = 2
     \<and> results (projr (runIsolatedBenchmark fl64 co ''bench'' (isolation_options 2) None
          [bare_report, result_report (report 10 1000)])) = [report 10 1000]
     \<and> promise (projr (runIsolatedBenchmark fl64 co ''bench'' (isolation_options 2) None
          [bare_report, result_report (report 10 1000)])) = Resolved (report 10 1000)
     \<and> promise (projr (runIsolatedBenchmark fl64 co ''bench'' (isolation_options 2) None
          [result_report (report 10 1000), result_report (report 20 1000), OnExit 1]))
         = Resolved (projr (combineResults fl64 co [report 10 1000, report 20 1000]))"
  by (simp add: runIsolatedBenchmark_def valid_bench Let_def isolation_options_def spread_def
      initial_orchestration_def on_events_def result_report_def bare_report_def reports_def
      handleCompletion_def combineResults_def settle_def report_result)

section \<open>Properties of the adaptive benchmark\<close>

lemma spread_twice: "spread (Some d) (spread (Some d) x) = spread (Some d) x"
  by (cases x) (simp_all add: spread_def)

lemma merged_fields:
  "minIterations_opt (merge_adaptive (DEFAULT_ADAPTIVE_OPTIONS rnd) options)
     = spread (Some (Fin 1000)) (minIterations_opt options)"
  "maxIterations_opt (merge_adaptive (DEFAULT_ADAPTIVE_OPTIONS rnd) options)
     = spread (Some (Fin 10000000)) (maxIterations_opt options)"
  "targetDuration_opt (merge_adaptive (DEFAULT_ADAPTIVE_OPTIONS rnd) options)
     = spread (Some (Fin 500)) (targetDuration_opt options)"
  by (simp_all add: merge_adaptive_def DEFAULT_ADAPTIVE_OPTIONS_def no_adaptive_options_def)

lemma merged_effective:
  "js_or (minIterations_opt (merge_adaptive (DEFAULT_ADAPTIVE_OPTIONS rnd)
            (merge_adaptive (DEFAULT_ADAPTIVE_OPTIONS rnd) options))) (Fin 1000)
     = effective (minIterations_opt options) (Fin 1000)"
  "js_or (maxIterations_opt (merge_adaptive (DEFAULT_ADAPTIVE_OPTIONS rnd)
            (merge_adaptive (DEFAULT_ADAPTIVE_OPTIONS rnd) options))) (Fin 10000000)
     = effective (maxIterations_opt options) (Fin 10000000)"
  "js_or (targetDuration_opt (merge_adaptive (DEFAULT_ADAPTIVE_OPTIONS rnd)
            (merge_adaptive (DEFAULT_ADAPTIVE_OPTIONS rnd) options))) (Fin 500)
     = effective (targetDuration_opt options) (Fin 500)"
  by (simp_all add: merged_fields spread_twice effective_def)

lemma merged_effective_max:
  "js_or (maxIterations_opt (merge_adaptive (DEFAULT_ADAPTIVE_OPTIONS rnd) options))
       (Fin 10000000)
     = effective (maxIterations_opt options) (Fin 10000000)"
  by (simp add: merged_fields effective_def)

lemma js_or_nonzero: "js_or x (Fin d) = Fin T \<Longrightarrow> d \<noteq> 0 \<Longrightarrow> T \<noteq> 0"
  by (cases "(x, Fin d)" rule: js_or.cases) (auto split: if_splits)

lemma clamp_floor:
  assumes "lo \<le> hi" "y \<noteq> NaN"
  shows "iterations_between lo hi
           (clamp_iterations (Fin (of_int lo)) (Fin (of_int hi)) (js_floor y))"
proof (cases y)
  case (Fin a)
  show ?thesis
    unfolding iterations_between_def
    using assms(1)
    by (intro exI [of _ "max lo (min hi \<lfloor>a\<rfloor>)"])
       (auto simp: Fin clamp_iterations_def js_min_def js_max_def max_def min_def)
next
  case PInf
  show ?thesis
    unfolding iterations_between_def
    using assms(1)
    by (intro exI [of _ hi]) (auto simp: PInf clamp_iterations_def js_min_def js_max_def)
next
  case NInf
  show ?thesis
    unfolding iterations_between_def
    using assms(1)
    by (intro exI [of _ lo]) (auto simp: NInf clamp_iterations_def js_min_def js_max_def)
next
  case NaN
  then show ?thesis using assms(2) by simp
qed

lemma scaled_not_NaN:
  assumes "a \<noteq> 0" "T \<noteq> 0"
  shows "js_mul rnd (js_div rnd (Fin a) (Fin d)) (Fin T) \<noteq> NaN"
  using assms by (cases "d = 0") (auto simp: js_inf_def)

lemma adjusted_not_NaN:
  assumes "a \<noteq> 0" "T \<noteq> 0"
  shows "js_mul rnd (Fin a) (js_div rnd (Fin T) (Fin d)) \<noteq> NaN"
  using assms by (cases "d = 0") (auto simp: js_inf_def)

lemma phaseA_shape:
  assumes "findIterationsForTargetDuration rnd h fn
             (merge_adaptive (DEFAULT_ADAPTIVE_OPTIONS rnd) options) w = Some (init, w1)"
  defines "lo \<equiv> effective (minIterations_opt options) (Fin 1000)"
      and "hi \<equiv> effective (maxIterations_opt options) (Fin 10000000)"
      and "T \<equiv> effective (targetDuration_opt options) (Fin 500)"
  shows "\<exists>d1 d2. let iterations1 = clamp_iterations lo hi (js_floor (js_mul rnd (js_div rnd lo (Fin d1)) T))
         in init = iterations1
          \<or> init = clamp_iterations lo hi
                     (js_floor (js_mul rnd iterations1 (js_div rnd T (Fin d2))))"
  using assms(1)
  unfolding findIterationsForTargetDuration_def Let_def merged_effective lo_def hi_def T_def
  by (auto split: option.splits prod.splits if_splits)

lemma phaseA_between:
  assumes min: "effective (minIterations_opt options) (Fin 1000) = Fin (of_int lo)"
      and max: "effective (maxIterations_opt options) (Fin 10000000) = Fin (of_int hi)"
      and tgt: "effective (targetDuration_opt options) (Fin 500) = Fin T"
      and lo: "1 \<le> lo" and hi: "lo \<le> hi"
      and run: "findIterationsForTargetDuration rnd h fn
                  (merge_adaptive (DEFAULT_ADAPTIVE_OPTIONS rnd) options) w = Some (init, w1)"
  shows "iterations_between lo hi init"
proof -
  have T: "T \<noteq> 0"
    using tgt js_or_nonzero [of _ 500 T] by (simp add: effective_def)
  have l0: "real_of_int lo \<noteq> 0" using lo by simp
  obtain d1 d2 where shape:
    "init = clamp_iterations (Fin (of_int lo)) (Fin (of_int hi))
              (js_floor (js_mul rnd (js_div rnd (Fin (of_int lo)) (Fin d1)) (Fin T)))
     \<or> init = clamp_iterations (Fin (of_int lo)) (Fin (of_int hi))
              (js_floor (js_mul rnd
                 (clamp_iterations (Fin (of_int lo)) (Fin (of_int hi))
                    (js_floor (js_mul rnd (js_div rnd (Fin (of_int lo)) (Fin d1)) (Fin T))))
                 (js_div rnd (Fin T) (Fin d2))))"
    using phaseA_shape [OF run] unfolding min max tgt Let_def by blast
  have first: "iterations_between lo hi
      (clamp_iterations (Fin (of_int lo)) (Fin (of_int hi))
         (js_floor (js_mul rnd (js_div rnd (Fin (of_int lo)) (Fin d1)) (Fin T))))"
    by (rule clamp_floor [OF hi scaled_not_NaN [OF l0 T]])
  then obtain i1 where i1:
    "clamp_iterations (Fin (of_int lo)) (Fin (of_int hi))
         (js_floor (js_mul rnd (js_div rnd (Fin (of_int lo)) (Fin d1)) (Fin T))) = Fin (of_int i1)"
    "lo \<le> i1"
    unfolding iterations_between_def by blast
  have "real_of_int i1 \<noteq> 0" using i1(2) lo by simp
  then have second: "iterations_between lo hi
      (clamp_iterations (Fin (of_int lo)) (Fin (of_int hi))
         (js_floor (js_mul rnd (Fin (of_int i1)) (js_div rnd (Fin T) (Fin d2)))))"
    by (intro clamp_floor [OF hi] adjusted_not_NaN T)
  show ?thesis using shape first second unfolding i1(1) by auto
qed

lemma adjust_shape:
  assumes "adjust rnd opts initial st = Inr st'"
  shows "st_iterations st' = st_iterations st
       \<or> st_iterations st' =
           js_min (js_or (maxIterations_opt opts) (Fin 10000000))
             (js_floor (js_mul rnd (st_iterations st) (Fin 1.5)))"
  using assms unfolding adjust_def Let_def
  by (auto split: if_splits sum.splits)

lemma adjust_between:
  assumes mono: "mono rnd"
      and ints: "\<forall>k::int. 1 \<le> k \<and> k \<le> hi \<longrightarrow> rnd (of_int k) = of_int k"
      and max: "js_or (maxIterations_opt opts) (Fin 10000000) = Fin (of_int hi)"
      and I: "1 \<le> I"
      and inv: "iterations_between I hi (st_iterations st)"
      and adj: "adjust rnd opts initial st = Inr st'"
  shows "iterations_between I hi (st_iterations st')"
proof -
  obtain i where i: "st_iterations st = Fin (of_int i)" "I \<le> i" "i \<le> hi"
    using inv unfolding iterations_between_def by blast
  have "real_of_int i \<le> real_of_int i * 1.5" using i(2) I by simp
  then have "rnd (real_of_int i) \<le> rnd (real_of_int i * 1.5)"
    using mono by (simp add: mono_def)
  then have "real_of_int i \<le> rnd (real_of_int i * 1.5)"
    using ints [rule_format, of i] i(2,3) I by simp
  then have up: "i \<le> \<lfloor>rnd (real_of_int i * 1.5)\<rfloor>" by (simp add: le_floor_iff)
  define i' where "i' = min hi \<lfloor>rnd (real_of_int i * 1.5)\<rfloor>"
  have new: "js_min (Fin (of_int hi)) (js_floor (js_mul rnd (Fin (of_int i)) (Fin 1.5)))
      = Fin (of_int i')"
    by (simp add: js_min_def i'_def min_def)
  have i': "I \<le> i'" "i' \<le> hi" using up i by (simp_all add: i'_def)
  have "st_iterations st' = Fin (of_int i) \<or> st_iterations st' = Fin (of_int i')"
    using adjust_shape [OF adj] unfolding max i(1) new .
  then show ?thesis unfolding iterations_between_def using i i' by blast
qed

lemma loop_body_between:
  assumes "mono rnd" "\<forall>k::int. 1 \<le> k \<and> k \<le> hi \<longrightarrow> rnd (of_int k) = of_int k"
      and "js_or (maxIterations_opt opts) (Fin 10000000) = Fin (of_int hi)"
      and "1 \<le> I"
      and "iterations_between I hi (st_iterations st)"
      and body: "loop_body rnd h fn opts initial startTime st = Some (Inr (st1, stop))"
  shows "iterations_between I hi (st_iterations st1)"
proof -
  obtain res w1 st2 where
    adj: "adjust rnd opts initial (st\<lparr>st_world := w1, st_samples := st_samples st @ [res]\<rparr>) = Inr st2"
    and st1: "st_iterations st1 = st_iterations st2"
    using body unfolding loop_body_def
    by (auto split: option.splits prod.splits sum.splits if_splits)
  have "iterations_between I hi
          (st_iterations (st\<lparr>st_world := w1, st_samples := st_samples st @ [res]\<rparr>))"
    using assms(5) by simp
  then have "iterations_between I hi (st_iterations st2)"
    by (rule adjust_between [OF assms(1) assms(2) assms(3) assms(4) _ adj])
  then show ?thesis by (simp add: st1)
qed

lemma adaptive_loop_between:
  assumes run: "adaptive_loop rnd h fn opts initial startTime st = Some y"
  shows "mono rnd \<and> (\<forall>k::int. 1 \<le> k \<and> k \<le> hi \<longrightarrow> rnd (of_int k) = of_int k)
         \<and> js_or (maxIterations_opt opts) (Fin 10000000) = Fin (of_int hi)
         \<and> 1 \<le> I \<and> iterations_between I hi (st_iterations st)
         \<longrightarrow> (\<forall>st'. y = Inr st' \<longrightarrow> iterations_between I hi (st_iterations st'))"
proof (rule adaptive_loop.raw_induct
    [where P = "\<lambda>rnd h fn opts initial startTime st y.
         mono rnd \<and> (\<forall>k::int. 1 \<le> k \<and> k \<le> hi \<longrightarrow> rnd (of_int k) = of_int k)
         \<and> js_or (maxIterations_opt opts) (Fin 10000000) = Fin (of_int hi)
         \<and> 1 \<le> I \<and> iterations_between I hi (st_iterations st)
         \<longrightarrow> (\<forall>st'. y = Inr st' \<longrightarrow> iterations_between I hi (st_iterations st'))",
     OF _ run])
  fix loop :: "rounding \<Rightarrow> 'a host \<Rightarrow> ('a, 'b) BenchmarkFunction \<Rightarrow> AdaptiveBenchmarkOptions
      \<Rightarrow> jsnum \<Rightarrow> real \<Rightarrow> ('a, 'b) loop_state \<Rightarrow> (error + ('a, 'b) loop_state) option"
  fix rnd h fn opts initial startTime st y
  assume IH: "\<And>rnd h fn opts initial startTime st y.
      loop rnd h fn opts initial startTime st = Some y \<Longrightarrow>
      mono rnd \<and> (\<forall>k::int. 1 \<le> k \<and> k \<le> hi \<longrightarrow> rnd (of_int k) = of_int k)
         \<and> js_or (maxIterations_opt opts) (Fin 10000000) = Fin (of_int hi)
         \<and> 1 \<le> I \<and> iterations_between I hi (st_iterations st)
         \<longrightarrow> (\<forall>st'. y = Inr st' \<longrightarrow> iterations_between I hi (st_iterations st'))"
  assume step: "(if loop_condition rnd h opts startTime st
      then case loop_body rnd h fn opts initial startTime st of
           None \<Rightarrow> None | Some (Inl e) \<Rightarrow> Some (Inl e)
           | Some (Inr (st1, stop)) \<Rightarrow>
               if stop then Some (Inr st1)
               else loop rnd h fn opts initial startTime st1
      else Some (Inr st)) = Some y"
  show "mono rnd \<and> (\<forall>k::int. 1 \<le> k \<and> k \<le> hi \<longrightarrow> rnd (of_int k) = of_int k)
         \<and> js_or (maxIterations_opt opts) (Fin 10000000) = Fin (of_int hi)
         \<and> 1 \<le> I \<and> iterations_between I hi (st_iterations st)
         \<longrightarrow> (\<forall>st'. y = Inr st' \<longrightarrow> iterations_between I hi (st_iterations st'))"
  proof (intro impI allI)
    fix st'
    assume a: "mono rnd \<and> (\<forall>k::int. 1 \<le> k \<and> k \<le> hi \<longrightarrow> rnd (of_int k) = of_int k)
         \<and> js_or (maxIterations_opt opts) (Fin 10000000) = Fin (of_int hi)
         \<and> 1 \<le> I \<and> iterations_between I hi (st_iterations st)"
       and y: "y = Inr st'"
    show "iterations_between I hi (st_iterations st')"
    proof (cases "loop_condition rnd h opts startTime st")
      case False
      then have "st' = st" using step y by simp
      then show ?thesis using a by simp
    next
      case True
      then obtain st1 stop where
        body: "loop_body rnd h fn opts initial startTime st = Some (Inr (st1, stop))"
        and rest: "if stop then st' = st1 else loop rnd h fn opts initial startTime st1 = Some (Inr st')"
        using step y
        by (auto split: option.splits sum.splits prod.splits if_splits)
      have inv1: "iterations_between I hi (st_iterations st1)"
        using loop_body_between [OF _ _ _ _ _ body, of hi I] a by blast
      show ?thesis
      proof (cases stop)
        case True
        then show ?thesis using rest inv1 by simp
      next
        case False
        then have "loop rnd h fn opts initial startTime st1 = Some (Inr st')"
          using rest by simp
        from IH [OF this] a inv1 show ?thesis by blast
      qed
    qed
  qed
qed

lemma adaptive_result_calibration:
  assumes "adaptive_result rnd h initial startTime st = Inr res"
  shows "initialIterations (calibration res) = initial"
    and "finalIterations (calibration res) = st_iterations st"
    and "adjustmentSteps (calibration res) = st_adjustmentSteps st"
    and "samples (calibration res) = length (st_samples st)"
  using assms unfolding adaptive_result_def Let_def
  by (auto split: sum.splits)

text \<open>
  Claim C7, as amended. When the minimum and maximum iteration counts in effect are
  integers with \<open>1 \<le> min \<le> max\<close>, the target duration in effect is finite and the rounding
  is monotone and leaves the integers from \<open>1\<close> to the maximum unchanged (as rounding to
  a double does up to \<open>2^53\<close>), every adaptive run that returns reports
  \<open>finalIterations \<ge> initialIterations\<close>, both integers between the minimum and the
  maximum, whether or not an adjustment occurred.
\<close>

theorem adaptive_iterations_monotone:
  assumes "mono rnd" and "\<forall>k::int. 1 \<le> k \<and> k \<le> hi \<longrightarrow> rnd (of_int k) = of_int k"
      and "effective (minIterations_opt options) (Fin 1000) = Fin (of_int lo)"
      and "effective (maxIterations_opt options) (Fin 10000000) = Fin (of_int hi)"
      and "effective (targetDuration_opt options) (Fin 500) = Fin T"
      and "1 \<le> lo" and "lo \<le> hi"
      and run: "runAdaptiveBenchmark rnd h benchmarkFn options w = Some (Inr (res, w'))"
  shows "js_ge (finalIterations (calibration res)) (initialIterations (calibration res))
       \<and> (\<exists>i f. initialIterations (calibration res) = Fin (of_int i)
             \<and> finalIterations (calibration res) = Fin (of_int f)
             \<and> lo \<le> i \<and> i \<le> f \<and> f \<le> hi)"
proof -
  define opts where "opts = merge_adaptive (DEFAULT_ADAPTIVE_OPTIONS rnd) options"
  obtain initial w1 rounds w2 st where
    a: "findIterationsForTargetDuration rnd h benchmarkFn opts w = Some (initial, w1)"
    and l: "adaptive_loop rnd h benchmarkFn opts initial (now h w1)
              \<lparr>st_world = w2, st_iterations = initial, st_currentStep = 1,
               st_samples = [], st_adjustmentSteps = 0, st_rsd = PInf\<rparr> = Some (Inr st)"
    and r: "adaptive_result rnd h initial (now h w1) st = Inr res"
    using run unfolding runAdaptiveBenchmark_def Let_def opts_def
    by (auto split: option.splits prod.splits sum.splits)
  have "iterations_between lo hi initial"
    by (rule phaseA_between [OF assms(3) assms(4) assms(5) assms(6) assms(7)
          a [unfolded opts_def]])
  then obtain i where i: "initial = Fin (of_int i)" "lo \<le> i" "i \<le> hi"
    unfolding iterations_between_def by blast
  have max: "js_or (maxIterations_opt opts) (Fin 10000000) = Fin (of_int hi)"
    unfolding opts_def merged_effective_max by (rule assms(4))
  have "iterations_between i hi (st_iterations st)"
    using adaptive_loop_between [OF l, of hi i] assms(1) assms(2) max i assms(6)
    by (simp add: iterations_between_def)
  then obtain f where f: "st_iterations st = Fin (of_int f)" "i \<le> f" "f \<le> hi"
    unfolding iterations_between_def by blast
  show ?thesis
    using adaptive_result_calibration(1,2) [OF r] i f
    by (auto simp: js_ge_def js_le_def)
qed

lemma call_loop_counting: "call_loop counting_fn n w = w + n"
  by (induction n arbitrary: w) (simp_all add: counting_fn_def)

lemma measured_loop_counting:
  "measured_loop counting_fn n rw = (if n = 0 then rw else (JUndefined, snd rw + n))"
  by (induction n arbitrary: rw) (simp_all add: counting_fn_def)

lemma warmup_loop_counting: "warmup_loop slowing_host flag counting_fn n w = w + n"
  by (induction n arbitrary: w) (simp_all add: counting_fn_def gc_if_def slowing_host_def)

lemma loop_count_nat: "loop_count (Fin (real n)) = Some n"
  by simp

lemma runWarmup_slowing:
  "0 < n \<Longrightarrow> runWarmup slowing_host counting_fn (Fin (real n)) w = Some (w + n)"
  by (simp add: runWarmup_def js_le_def call_loop_counting slowing_host_def)

lemma measureDuration_slowing:
  "measureDuration exact slowing_host counting_fn (Fin (real n)) w
     = Some (real ((w + n) * (w + n)) - real (w * w), w + n)"
  by (simp add: measureDuration_def Let_def call_loop_counting slowing_host_def exact_def)

lemma runBenchmark_slowing:
  assumes "0 < n"
  shows "runBenchmark exact slowing_host counting_fn
           (no_options\<lparr>iterations_opt := Some (Fin (real n))\<rparr>) w
         = Some (slowing_sample w n, w + n)"
proof -
  have w: "loop_count (js_or (warmupRuns_opt (merge_options DEFAULT_OPTIONS
             (no_options\<lparr>iterations_opt := Some (Fin (real n))\<rparr>))) (Fin 0)) = Some 0"
    by (simp add: merge_options_def spread_def DEFAULT_OPTIONS_def no_options_def)
  have i: "loop_count (js_or (iterations_opt (merge_options DEFAULT_OPTIONS
             (no_options\<lparr>iterations_opt := Some (Fin (real n))\<rparr>))) (Fin 1)) = Some n"
    using assms by (simp add: merge_options_iterations)
  show ?thesis
    unfolding runBenchmark_unfold [OF w i]
    using assms
    by (simp add: Let_def merge_options_iterations measured_loop_counting
        slowing_sample_def calculateMemoryDelta_def slowing_host_def gc_if_def exact_def
        del: measured_loop.simps)
qed

lemmas runWarmup_numeral = runWarmup_slowing [of "numeral k" for k, simplified]
lemmas measureDuration_numeral = measureDuration_slowing [of "numeral k" for k, simplified]
lemmas runBenchmark_numeral = runBenchmark_slowing [of "numeral k" for k, simplified]

lemma calculateStats_nonempty:
  "values \<noteq> [] \<Longrightarrow> calculateStats rnd values = Inr (stats_of rnd values)"
  by (simp add: stats_of_def calculateStats_def Let_def)

lemma stats_of_exact:
  "values \<noteq> [] \<Longrightarrow> mean (stats_of exact values) = sum_list values / real (length values)"
  "values \<noteq> [] \<Longrightarrow> standardDeviation (stats_of exact values)
     = sqrt (sum_list (map (\<lambda>v. (v - sum_list values / real (length values)) ^ 2) values)
             / real (length values))"
proof -
  have sq: "foldl (\<lambda>sum val. exact (sum + exact ((exact (val - m)) ^ 2))) a vs
      = a + sum_list (map (\<lambda>v. (v - m) ^ 2) vs)" for m a and vs :: "real list"
    by (induction vs arbitrary: a) (simp_all add: exact_def)
  show "values \<noteq> [] \<Longrightarrow> mean (stats_of exact values) = sum_list values / real (length values)"
    by (simp add: stats_of_def calculateStats_def Let_def reduce_sum_exact) (simp add: exact_def)
  show "values \<noteq> [] \<Longrightarrow> standardDeviation (stats_of exact values)
     = sqrt (sum_list (map (\<lambda>v. (v - sum_list values / real (length values)) ^ 2) values)
             / real (length values))"
    by (simp add: stats_of_def calculateStats_def Let_def reduce_sum_exact reduce_squares_def sq)
       (simp add: exact_def)
qed

lemma relative_sd_above:
  assumes "values \<noteq> []" "0 < sum_list values"
      and "(c * (sum_list values / real (length values)) / 100) ^ 2
             < sum_list (map (\<lambda>v. (v - sum_list values / real (length values)) ^ 2) values)
               / real (length values)"
      and "0 \<le> c"
  shows "js_gt (relative_sd exact (stats_of exact values)) (Fin c)"
proof -
  define m where "m = sum_list values / real (length values)"
  define v where "v = sum_list (map (\<lambda>v. (v - m) ^ 2) values) / real (length values)"
  have m: "0 < m" using assms(1,2) by (simp add: m_def)
  have "c * m / 100 < sqrt v"
    using assms(3) by (intro real_less_rsqrt) (simp add: m_def v_def)
  then have "c < sqrt v / m * 100" using m by (simp add: field_simps)
  then show ?thesis
    using m assms(1)
    by (simp add: relative_sd_def stats_of_exact js_gt_def exact_def flip: m_def v_def)
qed

lemma merged_scenarios:
  "merge_adaptive (DEFAULT_ADAPTIVE_OPTIONS exact) options_min_above_max = merged_options 8 4 500 8000"
  "merge_adaptive (DEFAULT_ADAPTIVE_OPTIONS exact) options_in_order = merged_options 8 100 500 8000"
  "merge_adaptive (DEFAULT_ADAPTIVE_OPTIONS exact) options_time_limit
     = merged_options 4 10000000 1 5000"
  "merge_adaptive (DEFAULT_ADAPTIVE_OPTIONS exact) (merged_options lo hi target limit)
     = merged_options lo hi target limit"
  by (simp_all add: merge_adaptive_def DEFAULT_ADAPTIVE_OPTIONS_def no_adaptive_options_def
      options_min_above_max_def options_in_order_def options_time_limit_def merged_options_def
      spread_def exact_def)

lemma phaseA_eight:
  assumes "hi = 4 \<or> hi = 100"
  shows "findIterationsForTargetDuration exact slowing_host counting_fn
           (merged_options 8 hi 500 8000) 0 = Some (Fin 8, 116)"
  unfolding findIterationsForTargetDuration_def merged_scenarios(4)
  using assms
  by (auto simp: Let_def runWarmup_numeral measureDuration_numeral clamp_iterations_def
      js_max_def js_min_def js_gt_def js_sub_def merged_options_def exact_def)

lemma phaseA_four:
  "findIterationsForTargetDuration exact slowing_host counting_fn
     (merged_options 4 10000000 1 5000) 0 = Some (Fin 4, 108)"
  unfolding findIterationsForTargetDuration_def merged_scenarios(4)
  by (simp add: Let_def runWarmup_numeral measureDuration_numeral clamp_iterations_def
      js_max_def js_min_def js_gt_def js_sub_def merged_options_def exact_def)

lemma rsd_eight: "js_gt (relative_sd exact (stats_of exact [2048, 2176, 2304])) (Fin 2)"
  by (rule relative_sd_above) (simp_all add: power2_eq_square)

lemma slowing_host_simps:
  "now slowing_host w = real (w * w)"
  "warn slowing_host msg w = w"
  "forceGc slowing_host w = w"
  by (simp_all add: slowing_host_def)

lemma loop_step:
  assumes "loop_condition rnd h opts startTime st"
      and "loop_body rnd h fn opts initial startTime st = Some (Inr (st1, False))"
  shows "adaptive_loop rnd h fn opts initial startTime st
       = adaptive_loop rnd h fn opts initial startTime st1"
  by (subst adaptive_loop.simps) (simp add: assms)

lemma loop_break:
  assumes "loop_condition rnd h opts startTime st"
      and "loop_body rnd h fn opts initial startTime st = Some (Inr (st1, True))"
  shows "adaptive_loop rnd h fn opts initial startTime st = Some (Inr st1)"
  by (subst adaptive_loop.simps) (simp add: assms)

lemma loop_eight:
  assumes "hi = 4 \<and> final = 4 \<or> hi = 100 \<and> final = 12"
  shows "adaptive_loop exact slowing_host counting_fn (merged_options 8 hi 500 8000) (Fin 8) 13456
           (loop_at 124 8 1 [] 0 PInf)
         = Some (Inr (loop_at 148 final 2
                        [slowing_sample 124 8, slowing_sample 132 8, slowing_sample 140 8] 1
                        (relative_sd exact (stats_of exact [2048, 2176, 2304]))))"
proof -
  let ?loop = "adaptive_loop exact slowing_host counting_fn (merged_options 8 hi 500 8000) (Fin 8) 13456"
  let ?body = "loop_body exact slowing_host counting_fn (merged_options 8 hi 500 8000) (Fin 8) 13456"
  let ?cond = "loop_condition exact slowing_host (merged_options 8 hi 500 8000) 13456"
  let ?s0 = "loop_at 124 8 1 [] 0 PInf"
  let ?s1 = "loop_at 132 8 1 [slowing_sample 124 8] 0 PInf"
  let ?s2 = "loop_at 140 8 1 [slowing_sample 124 8, slowing_sample 132 8] 0 PInf"
  let ?s3 = "loop_at 148 final 2
               [slowing_sample 124 8, slowing_sample 132 8, slowing_sample 140 8] 1
               (relative_sd exact (stats_of exact [2048, 2176, 2304]))"
  have c: "?cond ?s0" "?cond ?s1" "?cond ?s2"
    by (simp_all add: loop_condition_def loop_at_def merged_options_def)
  have b0: "?body ?s0 = Some (Inr (?s1, False))"
    by (simp add: loop_body_def loop_at_def runBenchmark_numeral adjust_def
        merged_options_def js_gt_def slowing_host_simps exact_def)
  have b1: "?body ?s1 = Some (Inr (?s2, False))"
    by (simp add: loop_body_def loop_at_def runBenchmark_numeral adjust_def
        merged_options_def js_gt_def slowing_host_simps exact_def)
  have d: "duration (slowing_sample 124 8) = 2048" "duration (slowing_sample 132 8) = 2176"
      "duration (slowing_sample 140 8) = 2304"
    by (simp_all add: slowing_sample_def)
  have a2: "adjust exact (merged_options 8 hi 500 8000) (Fin 8)
              (loop_at 148 8 1 [slowing_sample 124 8, slowing_sample 132 8, slowing_sample 140 8]
                 0 PInf)
            = Inr ?s3"
    using assms rsd_eight
    by (auto simp: adjust_def loop_at_def d calculateStats_nonempty Let_def
        merged_options_def js_le_def js_gt_def js_min_def exact_def)
  have b2: "?body ?s2 = Some (Inr (?s3, True))"
    using a2
    by (simp add: loop_body_def loop_at_def runBenchmark_numeral
        merged_options_def js_gt_def slowing_host_simps exact_def)
  have "?loop ?s0 = ?loop ?s1" by (rule loop_step [OF c(1) b0])
  also have "\<dots> = ?loop ?s2" by (rule loop_step [OF c(2) b1])
  also have "\<dots> = Some (Inr ?s3)" by (rule loop_break [OF c(3) b2])
  finally show ?thesis .
qed

lemma adaptive_result_report:
  assumes "st_samples st \<noteq> []"
  shows "\<exists>res. adaptive_result rnd h initial startTime st = Inr res
           \<and> initialIterations (calibration res) = initial
           \<and> finalIterations (calibration res) = st_iterations st
           \<and> adjustmentSteps (calibration res) = st_adjustmentSteps st"
  using assms by (simp add: adaptive_result_def calculateStats_nonempty Let_def)

lemma run_eight:
  fixes hi final :: real
  assumes "options = options_min_above_max \<and> hi = 4 \<and> final = 4
         \<or> options = options_in_order \<and> hi = 100 \<and> final = 12"
  shows "\<exists>res. runAdaptiveBenchmark exact slowing_host counting_fn options 0 = Some (Inr (res, 148))
           \<and> initialIterations (calibration res) = Fin 8
           \<and> finalIterations (calibration res) = Fin final
           \<and> adjustmentSteps (calibration res) = 1"
proof -
  have m: "merge_adaptive (DEFAULT_ADAPTIVE_OPTIONS exact) options = merged_options 8 hi 500 8000"
    using assms by (auto simp: merged_scenarios)
  have hf: "hi = 4 \<and> final = 4 \<or> hi = 100 \<and> final = 12" "hi = 4 \<or> hi = 100"
    using assms by auto
  have w: "warmup_rounds slowing_host counting_fn (Fin 8) 1 116 = Some 124"
    by (simp add: runWarmup_numeral)
  have r: "loop_count (js_or (warmupRuns_opt (merged_options 8 hi 500 8000)) (Fin 1)) = Some 1"
    by (simp add: merged_options_def)
  obtain res where res:
    "adaptive_result exact slowing_host (Fin 8) 13456
       (loop_at 148 final 2
          [slowing_sample 124 8, slowing_sample 132 8, slowing_sample 140 8] 1
          (relative_sd exact (stats_of exact [2048, 2176, 2304]))) = Inr res"
    "initialIterations (calibration res) = Fin 8"
    "finalIterations (calibration res) = Fin final"
    "adjustmentSteps (calibration res) = 1"
    using adaptive_result_report [of "loop_at 148 final 2
          [slowing_sample 124 8, slowing_sample 132 8, slowing_sample 140 8] 1
          (relative_sd exact (stats_of exact [2048, 2176, 2304]))" exact slowing_host "Fin 8" 13456]
    by (auto simp: loop_at_def)
  have "runAdaptiveBenchmark exact slowing_host counting_fn options 0 = Some (Inr (res, 148))"
    unfolding runAdaptiveBenchmark_def Let_def m phaseA_eight [OF hf(2)] option.case prod.case
      slowing_host_simps r w
    using loop_eight [OF hf(1)] res(1)
    by (simp add: loop_at_def)
  then show ?thesis using res by blast
qed

lemma rsd_four:
  "js_gt (relative_sd exact (stats_of exact [912, 944, 976])) (Fin 2)"
  "js_gt (relative_sd exact (stats_of exact [912, 944, 976, 1524])) (Fin 2)"
  by (rule relative_sd_above; simp add: power2_eq_square)+

lemma loop_four:
  "adaptive_loop exact slowing_host counting_fn (merged_options 4 10000000 1 5000) (Fin 4) 11664
     (loop_at 112 4 1 [] 0 PInf)
   = Some (Inr (loop_at 130 9 3 [] 2
                  (relative_sd exact (stats_of exact [912, 944, 976, 1524]))))"
proof -
  let ?opts = "merged_options 4 10000000 1 5000"
  let ?loop = "adaptive_loop exact slowing_host counting_fn ?opts (Fin 4) 11664"
  let ?body = "loop_body exact slowing_host counting_fn ?opts (Fin 4) 11664"
  let ?cond = "loop_condition exact slowing_host ?opts 11664"
  let ?x1 = "slowing_sample 112 4" and ?x2 = "slowing_sample 116 4"
  let ?x3 = "slowing_sample 120 4" and ?x4 = "slowing_sample 124 6"
  let ?s0 = "loop_at 112 4 1 [] 0 PInf"
  let ?s1 = "loop_at 116 4 1 [?x1] 0 PInf"
  let ?s2 = "loop_at 120 4 1 [?x1, ?x2] 0 PInf"
  let ?s3 = "loop_at 124 6 2 [?x1, ?x2, ?x3] 1 (relative_sd exact (stats_of exact [912, 944, 976]))"
  let ?s4 = "loop_at 130 9 3 [] 2 (relative_sd exact (stats_of exact [912, 944, 976, 1524]))"
  have c: "?cond ?s0" "?cond ?s1" "?cond ?s2" "?cond ?s3"
    by (simp_all add: loop_condition_def loop_at_def merged_options_def)
  have d: "duration ?x1 = 912" "duration ?x2 = 944" "duration ?x3 = 976" "duration ?x4 = 1524"
    by (simp_all add: slowing_sample_def)
  have b0: "?body ?s0 = Some (Inr (?s1, False))"
    by (simp add: loop_body_def loop_at_def runBenchmark_numeral adjust_def
        merged_options_def js_gt_def slowing_host_simps exact_def)
  have b1: "?body ?s1 = Some (Inr (?s2, False))"
    by (simp add: loop_body_def loop_at_def runBenchmark_numeral adjust_def
        merged_options_def js_gt_def slowing_host_simps exact_def)
  have a2: "adjust exact ?opts (Fin 4) (loop_at 124 4 1 [?x1, ?x2, ?x3] 0 PInf) = Inr ?s3"
    using rsd_four(1)
    by (simp add: adjust_def loop_at_def d calculateStats_nonempty Let_def
        merged_options_def js_le_def js_gt_def js_min_def exact_def)
  have b2: "?body ?s2 = Some (Inr (?s3, False))"
    using a2
    by (simp add: loop_body_def loop_at_def runBenchmark_numeral
        merged_options_def js_gt_def slowing_host_simps exact_def)
  have a3: "adjust exact ?opts (Fin 4)
              (loop_at 130 6 2 [?x1, ?x2, ?x3, ?x4] 1
                 (relative_sd exact (stats_of exact [912, 944, 976])))
            = Inr ?s4"
    using rsd_four(2)
    by (simp add: adjust_def loop_at_def d calculateStats_nonempty Let_def
        merged_options_def js_le_def js_gt_def js_min_def exact_def)
  have b3: "?body ?s3 = Some (Inr (?s4, True))"
    using a3
    by (simp add: loop_body_def loop_at_def runBenchmark_numeral
        merged_options_def js_gt_def slowing_host_simps exact_def)
  have "?loop ?s0 = ?loop ?s1" by (rule loop_step [OF c(1) b0])
  also have "\<dots> = ?loop ?s2" by (rule loop_step [OF c(2) b1])
  also have "\<dots> = ?loop ?s3" by (rule loop_step [OF c(3) b2])
  also have "\<dots> = Some (Inr ?s4)" by (rule loop_break [OF c(4) b3])
  finally show ?thesis .
qed

text \<open>
  Claim C3 fails on the code. On the slowing host, with \<open>minIterations = 4\<close>,
  \<open>targetDuration = 1\<close> and \<open>maxTime = 5000\<close>, the iteration count goes from \<open>4\<close> to
  \<open>6\<close> at the third sample and to \<open>9\<close> at the fourth; \<open>9\<close> is more than twice \<open>4\<close>, so
  the samples are discarded, and in the same round the time limit is found exceeded and
  the loop is left with no sample. The final \<^verbatim>\<open>calculateStats\<close> then throws: the call
  fails, with a function that never throws.
\<close>

theorem runAdaptiveBenchmark_throws_on_time_limit:
  "runAdaptiveBenchmark exact slowing_host counting_fn options_time_limit 0
     = Some (Inl EmptyStatsError)"
proof -
  have w: "warmup_rounds slowing_host counting_fn (Fin 4) 1 108 = Some 112"
    by (simp add: runWarmup_numeral)
  have r: "loop_count (js_or (warmupRuns_opt (merged_options 4 10000000 1 5000)) (Fin 1)) = Some 1"
    by (simp add: merged_options_def)
  have e: "adaptive_result exact slowing_host (Fin 4) 11664
             (loop_at 130 9 3 [] 2 (relative_sd exact (stats_of exact [912, 944, 976, 1524])))
           = Inl EmptyStatsError"
    by (simp add: adaptive_result_def loop_at_def calculateStats_def)
  show ?thesis
    unfolding runAdaptiveBenchmark_def Let_def merged_scenarios phaseA_four option.case prod.case
      slowing_host_simps r w
    using loop_four e
    by (simp add: loop_at_def)
qed

text \<open>
  Claim C7 as stated fails. With \<open>minIterations = 8\<close> above \<open>maxIterations = 4\<close> the
  calibration starts at \<open>8\<close>, the one adjustment sets the count to
  \<open>min(4, \<lfloor>8 \<times> 1.5\<rfloor>) = 4\<close>, and the run reports \<open>finalIterations = 4 < 8\<close>.
\<close>

theorem adaptive_min_above_max:
  "iteration_report (runAdaptiveBenchmark exact slowing_host counting_fn options_min_above_max 0)
     = Some (Inr (Fin 8, Fin 4, 1))
   \<and> \<not> js_ge (Fin 4) (Fin 8)"
proof -
  obtain res where
    "runAdaptiveBenchmark exact slowing_host counting_fn options_min_above_max 0
       = Some (Inr (res, 148))"
    "initialIterations (calibration res) = Fin 8"
    "finalIterations (calibration res) = Fin 4"
    "adjustmentSteps (calibration res) = 1"
    using run_eight [of options_min_above_max 4 4] by auto
  then show ?thesis by (simp add: iteration_report_def js_ge_def js_le_def)
qed

theorem adaptive_iterations_monotone_witness:
  "mono exact
   \<and> effective (minIterations_opt options_in_order) (Fin 1000) = Fin (of_int 8)
   \<and> effective (maxIterations_opt options_in_order) (Fin 10000000) = Fin (of_int 100)
   \<and> effective (targetDuration_opt options_in_order) (Fin 500) = Fin 500
   \<and> iteration_report (runAdaptiveBenchmark exact slowing_host counting_fn options_in_order 0)
       = Some (Inr (Fin 8, Fin 12, 1))
   \<and> js_ge (Fin 12) (Fin 8)"
proof -
  obtain res where res:
    "runAdaptiveBenchmark exact slowing_host counting_fn options_in_order 0
       = Some (Inr (res, 148))"
    "initialIterations (calibration res) = Fin 8"
    "finalIterations (calibration res) = Fin 12"
    "adjustmentSteps (calibration res) = 1"
    using run_eight [of options_in_order 100 12] by auto
  have m: "mono exact" by (simp add: mono_def exact_def)
  have k: "\<forall>k::int. 1 \<le> k \<and> k \<le> 100 \<longrightarrow> exact (of_int k) = of_int k"
    by (simp add: exact_def)
  have lo: "effective (minIterations_opt options_in_order) (Fin 1000) = Fin (of_int 8)"
    by (simp add: effective_def options_in_order_def no_adaptive_options_def spread_def)
  have hi: "effective (maxIterations_opt options_in_order) (Fin 10000000) = Fin (of_int 100)"
    by (simp add: effective_def options_in_order_def no_adaptive_options_def spread_def)
  have t: "effective (targetDuration_opt options_in_order) (Fin 500) = Fin 500"
    by (simp add: effective_def options_in_order_def no_adaptive_options_def spread_def)
  have "js_ge (finalIterations (calibration res)) (initialIterations (calibration res))"
    using adaptive_iterations_monotone [OF m k lo hi t _ _ res(1)] by simp
  then have "js_ge (Fin 12) (Fin 8)" by (simp add: res)
  then show ?thesis
    using m lo hi t res by (simp add: iteration_report_def)
qed

end
